theory Spec2Isabelle
  imports Main "HOL-Library.Word" "HOL-Library.AList"
begin

unbundle bit_operations_syntax

section \<open>Exceptions, handles and the OS debug API\<close>

text \<open>
  This theory embeds the handle manager, the memory-region walk, the memory
  snapshot restore and the process scans of \<^verbatim>\<open>winappdbg/process.py\<close>.

  Python exceptions are values: every function that can raise returns
  \<open>exn + 'a\<close>, with \<open>Inl\<close> the raised exception. Mutation of the
  \<^verbatim>\<open>Process\<close> object is explicit state passing.
\<close>

datatype exn = WindowsError int | RuntimeError | TypeError | AttributeError | NotImplementedError

type_synonym bytes = "8 word list"

text \<open>
  A \<^verbatim>\<open>win32.ProcessHandle\<close>: the native handle value and the access mask it was
  opened with (\<^verbatim>\<open>hProcess.dwAccess\<close>, read by \<^verbatim>\<open>get_handle\<close>).
\<close>

record ProcessHandle =
  hvalue :: int
  dwAccess :: int

text \<open>
  The attribute \<^verbatim>\<open>Process.hProcess\<close> is \<^verbatim>\<open>None\<close>,
  \<^verbatim>\<open>win32.INVALID_HANDLE_VALUE\<close> or a handle object.
\<close>

datatype hproc = HNone | HInvalid | HObj ProcessHandle

record MemoryBasicInformation =
  BaseAddress :: int
  RegionSize :: int
  State :: int
  Protect :: int
  Type :: int
  filename :: "string option"
  content :: "bytes option"

text \<open>
  Every call that reaches the operating system is appended to a log, in
  order, with its arguments. \<open>Warn\<close> records a call of
  \<^verbatim>\<open>warnings.warn\<close>.
\<close>

datatype event =
    Call_OpenProcess int int
  | Call_CloseHandle int
  | Call_VirtualQueryEx hproc int
  | Call_VirtualAllocEx hproc int int int int
  | Call_VirtualFreeEx hproc int int int
  | Call_VirtualProtectEx hproc int int int
  | Call_ReadProcessMemory hproc int int
  | Call_WriteProcessMemory hproc int bytes
  | Call_IsWow64Process hproc
  | Call_scan_threads int
  | Call_Thread_suspend int
  | Call_Thread_resume int
  | Call_EnumProcesses
  | Call_CreateToolhelp32Snapshot
  | Call_WTSEnumerateProcesses
  | Call_scan_modules int
  | Call_get_image_name int
  | Warn

text \<open>
  The \<^verbatim>\<open>win32\<close> module (the thin OS API wrappers) is an external
  collaborator and is taken as a parameter. Each wrapper answers from the
  history of calls made so far, so the answers may change from one call to
  the next as the target process runs; \<open>Inl code\<close> is a raised
  \<^verbatim>\<open>WindowsError\<close> with that \<^verbatim>\<open>winerror\<close>.
  \<open>GetLastError\<close> is the code that \<^verbatim>\<open>ctypes.WinError()\<close> reads.
  The predicates of \<^verbatim>\<open>win32.MemoryBasicInformation\<close> whose bodies are not part
  of \<^verbatim>\<open>process.py\<close> are parameters as well, and so are the methods of the
  thread container that \<^verbatim>\<open>suspend\<close> and \<^verbatim>\<open>resume\<close> call
  (\<^verbatim>\<open>scan_threads\<close> answers the refreshed list of thread IDs) and
  \<^verbatim>\<open>MemoryAddresses.align_address_range\<close> of the \<^verbatim>\<open>util\<close> module.

  For the scans: \<open>GetCurrentProcessId\<close> is the caller's own ID;
  \<open>EnumProcesses\<close> is the fast source (IDs only);
  \<open>CreateToolhelp32Snapshot\<close> is the Toolhelp source, answering the process
  entries (ID and executable name) and the thread entries (thread ID and
  owner process ID) that \<^verbatim>\<open>Process32First\<close>/\<^verbatim>\<open>Next\<close> and
  \<^verbatim>\<open>Thread32First\<close>/\<^verbatim>\<open>Next\<close> go through; \<open>WTSEnumerateProcesses\<close> is the
  session source (ID and process name). \<open>scan_modules_of\<close> is the module
  enumeration of one process (the bases of its modules), done by the module
  container, and \<open>get_image_name\<close> stands for \<^verbatim>\<open>Process.get_image_name\<close>, whose
  six methods go through modules, the PEB and further wrappers: it answers a
  name, \<^verbatim>\<open>None\<close>, or an exception.

  For \<^verbatim>\<open>is_wow64\<close>: \<open>bits\<close> and \<open>wow64\<close> are the module attributes
  \<^verbatim>\<open>win32.bits\<close> and \<^verbatim>\<open>win32.wow64\<close> (the word size of the debugger and
  whether it runs under WOW64), \<open>PROCESS_QUERY_LIMITED_INFORMATION\<close> is that
  attribute of the module, \<open>None\<close> when \<^verbatim>\<open>hasattr\<close> answers that there is
  none, and \<open>IsWow64Process\<close> answers for a handle or raises
  (\<^verbatim>\<open>AttributeError\<close> where the OS has no such function).
\<close>

record win32 =
  OpenProcess :: "event list \<Rightarrow> int \<Rightarrow> int \<Rightarrow> int + int"
  CloseHandle :: "event list \<Rightarrow> int \<Rightarrow> int + unit"
  VirtualQueryEx :: "event list \<Rightarrow> hproc \<Rightarrow> int \<Rightarrow> int + MemoryBasicInformation"
  VirtualAllocEx :: "event list \<Rightarrow> hproc \<Rightarrow> int \<Rightarrow> int \<Rightarrow> int \<Rightarrow> int \<Rightarrow> int + int"
  VirtualFreeEx :: "event list \<Rightarrow> hproc \<Rightarrow> int \<Rightarrow> int \<Rightarrow> int \<Rightarrow> int + unit"
  VirtualProtectEx :: "event list \<Rightarrow> hproc \<Rightarrow> int \<Rightarrow> int \<Rightarrow> int \<Rightarrow> int + int"
  ReadProcessMemory :: "event list \<Rightarrow> hproc \<Rightarrow> int \<Rightarrow> int \<Rightarrow> int + bytes"
  WriteProcessMemory :: "event list \<Rightarrow> hproc \<Rightarrow> int \<Rightarrow> bytes \<Rightarrow> int + int"
  IsWow64Process :: "event list \<Rightarrow> hproc \<Rightarrow> exn + bool"
  bits :: int
  wow64 :: bool
  PROCESS_QUERY_LIMITED_INFORMATION :: "int option"
  scan_threads :: "event list \<Rightarrow> int \<Rightarrow> int + int list"
  Thread_suspend :: "event list \<Rightarrow> int \<Rightarrow> int + unit"
  Thread_resume :: "event list \<Rightarrow> int \<Rightarrow> int + unit"
  GetLastError :: "event list \<Rightarrow> int"
  GetCurrentProcessId :: int
  EnumProcesses :: "event list \<Rightarrow> int + int list"
  CreateToolhelp32Snapshot :: "event list \<Rightarrow> int + (int \<times> string option) list \<times> (int \<times> int) list"
  WTSEnumerateProcesses :: "event list \<Rightarrow> int + (int \<times> string option) list"
  scan_modules_of :: "event list \<Rightarrow> int \<Rightarrow> int + int list"
  get_image_name :: "event list \<Rightarrow> int \<Rightarrow> exn + string option"
  align_address_range :: "int option \<Rightarrow> int option \<Rightarrow> int \<times> int"
  has_content :: "MemoryBasicInformation \<Rightarrow> bool"
  is_readable :: "MemoryBasicInformation \<Rightarrow> bool"
  is_writeable :: "MemoryBasicInformation \<Rightarrow> bool"
  is_executable :: "MemoryBasicInformation \<Rightarrow> bool"

text \<open>
  The \<^verbatim>\<open>Process\<close> object: its ID, its handle, its cached file name and the keys
  of its thread and module dictionaries. \<open>oid\<close> is the identity of the
  Python object (two objects built by two constructor calls differ in it).
  \<open>Process_wow64\<close> is the private attribute \<^verbatim>\<open>__wow64\<close> in which
  \<^verbatim>\<open>is_wow64\<close> keeps its answer: \<open>None\<close> as long as the attribute is not
  set.
\<close>

record Process =
  oid :: nat
  dwProcessId :: int
  hProcess :: hproc
  fileName :: "string option"
  threads :: "int list"
  modules :: "int list"
  Process_wow64 :: "bool option"

record pstate =
  self :: Process
  log :: "event list"

definition emit :: "event \<Rightarrow> pstate \<Rightarrow> pstate" where
  "emit ev s = s\<lparr>log := log s @ [ev]\<rparr>"

definition set_hProcess :: "hproc \<Rightarrow> pstate \<Rightarrow> pstate" where
  "set_hProcess h s = s\<lparr>self := (self s)\<lparr>hProcess := h\<rparr>\<rparr>"

section \<open>Handle manager\<close>

text \<open>
  \<^verbatim>\<open>Process.close_handle\<close>: close the handle object if there is one; the
  attribute is reset to \<^verbatim>\<open>None\<close> in the \<^verbatim>\<open>finally\<close> clause, also when
  closing raises.
\<close>

definition close_handle :: "win32 \<Rightarrow> pstate \<Rightarrow> (exn + unit) \<times> pstate" where
  "close_handle os s =
     (case hProcess (self s) of
        HObj h \<Rightarrow>
          (case CloseHandle os (log s) (hvalue h) of
             Inl err \<Rightarrow> (Inl (WindowsError err), set_hProcess HNone (emit (Call_CloseHandle (hvalue h)) s))
           | Inr u \<Rightarrow> (Inr (), set_hProcess HNone (emit (Call_CloseHandle (hvalue h)) s)))
      | HInvalid \<Rightarrow> (Inr (), set_hProcess HNone s)
      | HNone \<Rightarrow> (Inr (), set_hProcess HNone s))"

text \<open>
  \<^verbatim>\<open>Process.open_handle\<close>: \<^verbatim>\<open>win32.OpenProcess\<close> first; when it raises nothing
  else happens. Otherwise the old handle is closed, a failure to close is
  turned into a warning, and the new handle is stored.

  Modelled from the spec: \<^verbatim>\<open>win32.OpenProcess\<close> is not part of
  \<^verbatim>\<open>process.py\<close>; the handle it returns is tagged with the access-rights mask
  used to obtain it.
\<close>

definition open_handle :: "win32 \<Rightarrow> int \<Rightarrow> pstate \<Rightarrow> (exn + unit) \<times> pstate" where
  "open_handle os dwDesiredAccess s =
     (let s1 = emit (Call_OpenProcess dwDesiredAccess (dwProcessId (self s))) s in
      case OpenProcess os (log s) dwDesiredAccess (dwProcessId (self s)) of
        Inl err \<Rightarrow> (Inl (WindowsError err), s1)
      | Inr hv \<Rightarrow>
          (case close_handle os s1 of
             (Inl e, s2) \<Rightarrow>
               (Inr (), set_hProcess (HObj \<lparr>hvalue = hv, dwAccess = dwDesiredAccess\<rparr>) (emit Warn s2))
           | (Inr u, s2) \<Rightarrow>
               (Inr (), set_hProcess (HObj \<lparr>hvalue = hv, dwAccess = dwDesiredAccess\<rparr>) s2)))"

text \<open>
  \<^verbatim>\<open>Process.get_handle\<close>: reuse the held handle when
  \<^verbatim>\<open>(dwAccess | dwDesiredAccess) == dwAccess\<close>, otherwise open a handle with the
  merged rights. The value returned is the attribute \<^verbatim>\<open>self.hProcess\<close>.
\<close>

definition get_handle :: "win32 \<Rightarrow> int \<Rightarrow> pstate \<Rightarrow> (exn + hproc) \<times> pstate" where
  "get_handle os dwDesiredAccess s =
     (case hProcess (self s) of
        HObj h \<Rightarrow>
          (if (dwAccess h OR dwDesiredAccess) \<noteq> dwAccess h
           then (case open_handle os (dwAccess h OR dwDesiredAccess) s of
                   (Inl e, s') \<Rightarrow> (Inl e, s')
                 | (Inr u, s') \<Rightarrow> (Inr (hProcess (self s')), s'))
           else (Inr (hProcess (self s)), s))
      | HInvalid \<Rightarrow>
          (case open_handle os dwDesiredAccess s of
             (Inl e, s') \<Rightarrow> (Inl e, s')
           | (Inr u, s') \<Rightarrow> (Inr (hProcess (self s')), s'))
      | HNone \<Rightarrow>
          (case open_handle os dwDesiredAccess s of
             (Inl e, s') \<Rightarrow> (Inl e, s')
           | (Inr u, s') \<Rightarrow> (Inr (hProcess (self s')), s')))"

text \<open>
  A caller that issues one \<^verbatim>\<open>get_handle\<close> call after the other on the same
  \<^verbatim>\<open>Process\<close>; a call that raises is caught by the caller and the next one
  is made.
\<close>

fun get_handle_calls :: "win32 \<Rightarrow> int list \<Rightarrow> pstate \<Rightarrow> pstate" where
  "get_handle_calls os [] s = s"
| "get_handle_calls os (R # Rs) s = get_handle_calls os Rs (snd (get_handle os R s))"

text \<open>The requests of such a series of calls that returned a handle.\<close>

fun granted :: "win32 \<Rightarrow> int list \<Rightarrow> pstate \<Rightarrow> int list" where
  "granted os [] s = []"
| "granted os (R # Rs) s =
     (case get_handle os R s of
        (Inl e, s') \<Rightarrow> granted os Rs s'
      | (Inr h, s') \<Rightarrow> R # granted os Rs s')"

text \<open>The held handle, if any, carries every right of the mask \<open>R\<close>.\<close>

definition holds_rights :: "pstate \<Rightarrow> int \<Rightarrow> bool" where
  "holds_rights s R =
     (case hProcess (self s) of
        HObj h \<Rightarrow> (dwAccess h OR R) = dwAccess h
      | HInvalid \<Rightarrow> False
      | HNone \<Rightarrow> False)"

definition events_since :: "pstate \<Rightarrow> pstate \<Rightarrow> event list" where
  "events_since s s' = drop (length (log s)) (log s')"

fun is_open :: "event \<Rightarrow> bool" where
  "is_open (Call_OpenProcess a p) = True"
| "is_open ev = False"

fun is_close :: "event \<Rightarrow> bool" where
  "is_close (Call_CloseHandle h) = True"
| "is_close ev = False"

text \<open>The mask \<^verbatim>\<open>get_handle\<close> asks the OS for when it has to open a handle.\<close>

definition merged_rights :: "pstate \<Rightarrow> int \<Rightarrow> int" where
  "merged_rights s R =
     (case hProcess (self s) of HObj h \<Rightarrow> dwAccess h OR R | HInvalid \<Rightarrow> R | HNone \<Rightarrow> R)"

section \<open>Constants of the win32 module\<close>

text \<open>
  Modelled from the spec: the constants of the \<^verbatim>\<open>win32\<close> module are not part of
  \<^verbatim>\<open>process.py\<close>. They are the access-right flags of a handle, the region states
  Free, Reserved and Committed, the region types Mapped and Image, the
  allocation and release modes, and the protection values; each carries its
  value in the Windows API.
\<close>

definition PROCESS_VM_OPERATION :: int where "PROCESS_VM_OPERATION = 0x0008"
definition PROCESS_VM_READ :: int where "PROCESS_VM_READ = 0x0010"
definition PROCESS_VM_WRITE :: int where "PROCESS_VM_WRITE = 0x0020"
definition PROCESS_QUERY_INFORMATION :: int where "PROCESS_QUERY_INFORMATION = 0x0400"
definition PROCESS_SUSPEND_RESUME :: int where "PROCESS_SUSPEND_RESUME = 0x0800"

definition MEM_COMMIT :: int where "MEM_COMMIT = 0x1000"
definition MEM_RESERVE :: int where "MEM_RESERVE = 0x2000"
definition MEM_DECOMMIT :: int where "MEM_DECOMMIT = 0x4000"
definition MEM_RELEASE :: int where "MEM_RELEASE = 0x8000"
definition MEM_FREE :: int where "MEM_FREE = 0x10000"
definition MEM_PRIVATE :: int where "MEM_PRIVATE = 0x20000"
definition MEM_MAPPED :: int where "MEM_MAPPED = 0x40000"
definition MEM_IMAGE :: int where "MEM_IMAGE = 0x1000000"

definition PAGE_READWRITE :: int where "PAGE_READWRITE = 0x04"
definition PAGE_WRITECOPY :: int where "PAGE_WRITECOPY = 0x08"
definition PAGE_EXECUTE_READWRITE :: int where "PAGE_EXECUTE_READWRITE = 0x40"

definition ERROR_INVALID_PARAMETER :: int where "ERROR_INVALID_PARAMETER = 87"
definition ERROR_INVALID_ADDRESS :: int where "ERROR_INVALID_ADDRESS = 487"

text \<open>
  Modelled from the spec: \<^verbatim>\<open>MemoryAddresses.pageSize\<close> of the \<^verbatim>\<open>util\<close> module
  is not part of \<^verbatim>\<open>process.py\<close>; it is the size of a page, 4096 bytes.
\<close>

definition pageSize :: int where "pageSize = 0x1000"

text \<open>
  Modelled from the spec: the state and type tests of
  \<^verbatim>\<open>win32.MemoryBasicInformation\<close> are not part of \<^verbatim>\<open>process.py\<close>. A region is
  Free, Reserved or Committed by its \<^verbatim>\<open>State\<close>, and Mapped or Image by its
  \<^verbatim>\<open>Type\<close> (as \<^verbatim>\<open>process.py\<close> itself tests
  \<^verbatim>\<open>mbi.State == win32.MEM_COMMIT\<close> and
  \<^verbatim>\<open>mbi.Type not in (win32.MEM_IMAGE, win32.MEM_MAPPED)\<close>).
\<close>

definition is_free :: "MemoryBasicInformation \<Rightarrow> bool" where
  "is_free mbi = (State mbi = MEM_FREE)"

definition is_reserved :: "MemoryBasicInformation \<Rightarrow> bool" where
  "is_reserved mbi = (State mbi = MEM_RESERVE)"

definition is_commited :: "MemoryBasicInformation \<Rightarrow> bool" where
  "is_commited mbi = (State mbi = MEM_COMMIT)"

definition is_image :: "MemoryBasicInformation \<Rightarrow> bool" where
  "is_image mbi = (Type mbi = MEM_IMAGE)"

definition is_mapped :: "MemoryBasicInformation \<Rightarrow> bool" where
  "is_mapped mbi = (Type mbi = MEM_MAPPED)"

section \<open>Sequencing of calls that may raise\<close>

definition then_do ::
  "('s \<Rightarrow> (exn + 'a) \<times> 's) \<Rightarrow> ('a \<Rightarrow> 's \<Rightarrow> (exn + 'b) \<times> 's) \<Rightarrow> 's \<Rightarrow> (exn + 'b) \<times> 's" where
  "then_do m f s = (case m s of (Inl e, s') \<Rightarrow> (Inl e, s') | (Inr x, s') \<Rightarrow> f x s')"

text \<open>One call of a wrapper of the \<^verbatim>\<open>win32\<close> module: logged, then answered.\<close>

definition os_call :: "event \<Rightarrow> (event list \<Rightarrow> int + 'a) \<Rightarrow> pstate \<Rightarrow> (exn + 'a) \<times> pstate" where
  "os_call ev f s =
     (case f (log s) of
        Inl err \<Rightarrow> (Inl (WindowsError err), emit ev s)
      | Inr x \<Rightarrow> (Inr x, emit ev s))"

section \<open>The word size of a process\<close>

text \<open>
  \<^verbatim>\<open>Process.is_wow64\<close>. The answer is computed once and kept in
  \<^verbatim>\<open>self.__wow64\<close>. Computing it takes a handle with
  \<^verbatim>\<open>PROCESS_QUERY_LIMITED_INFORMATION\<close> (or \<^verbatim>\<open>PROCESS_QUERY_INFORMATION\<close>
  when the module has no such constant) through \<^verbatim>\<open>get_handle\<close>, which may
  reopen the handle of the process. An \<^verbatim>\<open>AttributeError\<close> of
  \<^verbatim>\<open>win32.IsWow64Process\<close> and a \<^verbatim>\<open>WindowsError\<close> of either call give
  \<^verbatim>\<open>False\<close>; any other exception leaves the method before the attribute is
  set.
\<close>

definition set_wow64 :: "bool \<Rightarrow> pstate \<Rightarrow> pstate" where
  "set_wow64 w s = s\<lparr>self := (self s)\<lparr>Process_wow64 := Some w\<rparr>\<rparr>"

definition is_wow64 :: "win32 \<Rightarrow> pstate \<Rightarrow> (exn + bool) \<times> pstate" where
  "is_wow64 os s =
     (case Process_wow64 (self s) of
        Some w \<Rightarrow> (Inr w, s)
      | None \<Rightarrow>
          (if bits os = 32 \<and> \<not> wow64 os then (Inr False, set_wow64 False s)
           else
             (case get_handle os (case PROCESS_QUERY_LIMITED_INFORMATION os of
                                    Some a \<Rightarrow> a
                                  | None \<Rightarrow> PROCESS_QUERY_INFORMATION) s of
                (Inl e, s1) \<Rightarrow>
                  (case e of
                     WindowsError err \<Rightarrow> (Inr False, set_wow64 False s1)
                   | _ \<Rightarrow> (Inl e, s1))
              | (Inr hProc, s1) \<Rightarrow>
                  (case IsWow64Process os (log s1) hProc of
                     Inl e \<Rightarrow>
                       (case e of
                          AttributeError \<Rightarrow>
                            (Inr False, set_wow64 False (emit (Call_IsWow64Process hProc) s1))
                        | WindowsError err \<Rightarrow>
                            (Inr False, set_wow64 False (emit (Call_IsWow64Process hProc) s1))
                        | _ \<Rightarrow> (Inl e, emit (Call_IsWow64Process hProc) s1))
                   | Inr w \<Rightarrow> (Inr w, set_wow64 w (emit (Call_IsWow64Process hProc) s1))))))"

text \<open>\<^verbatim>\<open>Process.get_bits\<close>.\<close>

definition get_bits :: "win32 \<Rightarrow> pstate \<Rightarrow> (exn + int) \<times> pstate" where
  "get_bits os s =
     (if bits os = 32 \<and> \<not> wow64 os then (Inr 32, s)
      else (case is_wow64 os s of
              (Inl e, s') \<Rightarrow> (Inl e, s')
            | (Inr w, s') \<Rightarrow> (Inr (if w then 32 else 64), s')))"

text \<open>
  Modelled from the spec: \<^verbatim>\<open>HexDump\<close> of the \<^verbatim>\<open>textio\<close> module is not part
  of \<^verbatim>\<open>process.py\<close>. It is a static class, a collection of static methods
  such as \<^verbatim>\<open>HexDump.address\<close>, and it cannot be instantiated: the call
  \<^verbatim>\<open>HexDump(address, bits)\<close> of the class itself, made in \<^verbatim>\<open>__restore_mbi\<close>
  where \<^verbatim>\<open>HexDump.address(address, bits)\<close> was meant, raises
  \<^verbatim>\<open>NotImplementedError\<close> once its arguments have been evaluated.
\<close>

definition HexDump :: "int \<Rightarrow> int \<Rightarrow> exn + string" where
  "HexDump address nbits = Inl NotImplementedError"

section \<open>Memory primitives of a process\<close>

text \<open>\<^verbatim>\<open>Process.mprotect\<close>: answers the old protection flags.\<close>

definition mprotect :: "win32 \<Rightarrow> int \<Rightarrow> int \<Rightarrow> int \<Rightarrow> pstate \<Rightarrow> (exn + int) \<times> pstate" where
  "mprotect os lpAddress dwSize flNewProtect =
     then_do (get_handle os PROCESS_VM_OPERATION) (\<lambda>hProc.
       os_call (Call_VirtualProtectEx hProc lpAddress dwSize flNewProtect)
         (\<lambda>evs. VirtualProtectEx os evs hProc lpAddress dwSize flNewProtect))"

text \<open>\<^verbatim>\<open>Process.mquery\<close>.\<close>

definition mquery :: "win32 \<Rightarrow> int \<Rightarrow> pstate \<Rightarrow> (exn + MemoryBasicInformation) \<times> pstate" where
  "mquery os lpAddress =
     then_do (get_handle os PROCESS_QUERY_INFORMATION) (\<lambda>hProc.
       os_call (Call_VirtualQueryEx hProc lpAddress) (\<lambda>evs. VirtualQueryEx os evs hProc lpAddress))"

text \<open>
  \<^verbatim>\<open>Process.free\<close>. Modelled from the spec: the wrapper
  \<^verbatim>\<open>win32.VirtualFreeEx(hProcess, lpAddress)\<close> called with two arguments frees
  the allocation at that address, that is size 0 and \<^verbatim>\<open>MEM_RELEASE\<close>.
\<close>

definition free :: "win32 \<Rightarrow> int \<Rightarrow> pstate \<Rightarrow> (exn + unit) \<times> pstate" where
  "free os lpAddress =
     then_do (get_handle os PROCESS_VM_OPERATION) (\<lambda>hProc.
       os_call (Call_VirtualFreeEx hProc lpAddress 0 MEM_RELEASE)
         (\<lambda>evs. VirtualFreeEx os evs hProc lpAddress 0 MEM_RELEASE))"

text \<open>
  \<^verbatim>\<open>Process.iter_memory_map\<close>. The generator is run to its end: the result is
  the list of regions it yields and the exception that ended it, if any. A
  \<^verbatim>\<open>WindowsError\<close> whose code is \<^verbatim>\<open>ERROR_INVALID_PARAMETER\<close> ends the walk
  without an exception.
\<close>

function iter_memory_map_loop ::
  "win32 \<Rightarrow> int \<Rightarrow> int \<Rightarrow> int \<Rightarrow> pstate \<Rightarrow> (MemoryBasicInformation list \<times> exn option) \<times> pstate" where
  "iter_memory_map_loop os prevAddr currentAddr maxAddr s =
     (if prevAddr < currentAddr \<and> currentAddr < maxAddr
      then (case mquery os currentAddr s of
              (Inl e, s1) \<Rightarrow>
                (if e = WindowsError ERROR_INVALID_PARAMETER then (([], None), s1)
                 else (([], Some e), s1))
            | (Inr mbi, s1) \<Rightarrow>
                (case iter_memory_map_loop os currentAddr (BaseAddress mbi + RegionSize mbi) maxAddr s1 of
                   ((mbis, r), s2) \<Rightarrow> ((mbi # mbis, r), s2)))
      else (([], None), s))"
  by pat_completeness auto
termination
  by (relation "measure (\<lambda>(os, prevAddr, currentAddr, maxAddr, s).
        if prevAddr < currentAddr \<and> currentAddr < maxAddr then Suc (nat (maxAddr - currentAddr)) else 0)")
     auto

definition iter_memory_map ::
  "win32 \<Rightarrow> int option \<Rightarrow> int option \<Rightarrow> pstate \<Rightarrow> (MemoryBasicInformation list \<times> exn option) \<times> pstate" where
  "iter_memory_map os minAddr maxAddr s =
     (case align_address_range os minAddr maxAddr of
        (minA, maxA) \<Rightarrow> iter_memory_map_loop os (minA - 1) minA maxA s)"

text \<open>\<^verbatim>\<open>Process.get_memory_map\<close>: \<^verbatim>\<open>list(self.iter_memory_map(minAddr, maxAddr))\<close>.\<close>

definition get_memory_map ::
  "win32 \<Rightarrow> int option \<Rightarrow> int option \<Rightarrow> pstate \<Rightarrow> (exn + MemoryBasicInformation list) \<times> pstate" where
  "get_memory_map os minAddr maxAddr s =
     (case iter_memory_map os minAddr maxAddr s of
        ((mbis, None), s') \<Rightarrow> (Inr mbis, s')
      | ((mbis, Some e), s') \<Rightarrow> (Inl e, s'))"

text \<open>
  The loop of \<^verbatim>\<open>Process.peek\<close> over the memory map: at the first region that is
  not readable the size becomes \<^verbatim>\<open>mbi.BaseAddress - lpBaseAddress\<close>.
\<close>

fun peek_size :: "win32 \<Rightarrow> int \<Rightarrow> int \<Rightarrow> MemoryBasicInformation list \<Rightarrow> int" where
  "peek_size os lpBaseAddress nSize [] = nSize"
| "peek_size os lpBaseAddress nSize (mbi # mbis) =
     (if \<not> is_readable os mbi then BaseAddress mbi - lpBaseAddress
      else peek_size os lpBaseAddress nSize mbis)"

text \<open>
  \<^verbatim>\<open>Process.peek\<close>. A \<^verbatim>\<open>WindowsError\<close> raised inside the \<^verbatim>\<open>try\<close> block becomes a
  warning and the data read so far (none) is returned.
\<close>

definition peek_body :: "win32 \<Rightarrow> int \<Rightarrow> int \<Rightarrow> pstate \<Rightarrow> (exn + bytes) \<times> pstate" where
  "peek_body os lpBaseAddress nSize =
     then_do (get_handle os (PROCESS_VM_READ OR PROCESS_QUERY_INFORMATION)) (\<lambda>hProc.
     then_do (get_memory_map os (Some lpBaseAddress) (Some (lpBaseAddress + nSize))) (\<lambda>mbis.
       (if peek_size os lpBaseAddress nSize mbis > 0
        then os_call (Call_ReadProcessMemory hProc lpBaseAddress (peek_size os lpBaseAddress nSize mbis))
               (\<lambda>evs. ReadProcessMemory os evs hProc lpBaseAddress (peek_size os lpBaseAddress nSize mbis))
        else (\<lambda>s. (Inr [], s)))))"

definition peek :: "win32 \<Rightarrow> int \<Rightarrow> int \<Rightarrow> pstate \<Rightarrow> (exn + bytes) \<times> pstate" where
  "peek os lpBaseAddress nSize s =
     (if nSize > 0
      then (case peek_body os lpBaseAddress nSize s of
              (Inl (WindowsError err), s') \<Rightarrow> (Inr [], emit Warn s')
            | (Inl e, s') \<Rightarrow> (Inl e, s')
            | (Inr data, s') \<Rightarrow> (Inr data, s'))
      else (Inr [], s))"

text \<open>
  \<^verbatim>\<open>Process.poke\<close>. The protection chosen for the write: \<^verbatim>\<open>None\<close> when the
  region is writeable already.
\<close>

definition poke_protection :: "win32 \<Rightarrow> MemoryBasicInformation \<Rightarrow> int option" where
  "poke_protection os mbi =
     (if is_image mbi \<or> is_mapped mbi then Some PAGE_WRITECOPY
      else if is_writeable os mbi then None
      else if is_executable os mbi then Some PAGE_EXECUTE_READWRITE
      else Some PAGE_READWRITE)"

text \<open>
  The buffer \<^verbatim>\<open>lpBuffer\<close> is a byte string, or \<^verbatim>\<open>None\<close> when the caller
  passes the \<^verbatim>\<open>content\<close> of a descriptor that has none: \<^verbatim>\<open>len(lpBuffer)\<close>
  then raises \<^verbatim>\<open>TypeError\<close>.

  Modelled from the spec: \<^verbatim>\<open>win32.WriteProcessMemory\<close> is not part of
  \<^verbatim>\<open>process.py\<close>; it takes the length of the buffer before it calls the OS,
  so for \<^verbatim>\<open>None\<close> it raises \<^verbatim>\<open>TypeError\<close> and the OS is not called.
\<close>

definition poke_write :: "win32 \<Rightarrow> hproc \<Rightarrow> int \<Rightarrow> bytes option \<Rightarrow> pstate \<Rightarrow> (exn + int) \<times> pstate" where
  "poke_write os hProc lpBaseAddress lpBuffer =
     (case lpBuffer of
        None \<Rightarrow> (\<lambda>s. (Inl TypeError, s))
      | Some data \<Rightarrow>
          os_call (Call_WriteProcessMemory hProc lpBaseAddress data)
            (\<lambda>evs. WriteProcessMemory os evs hProc lpBaseAddress data))"

text \<open>
  The handler of \<^verbatim>\<open>poke\<close> for a failure to change the protection: the
  message of the warning is built first, and building it calls
  \<^verbatim>\<open>self.get_bits()\<close>, which may reopen the handle of the process; then the
  warning is issued. The text of the message is not modelled.
\<close>

definition poke_warn :: "win32 \<Rightarrow> pstate \<Rightarrow> (exn + unit) \<times> pstate" where
  "poke_warn os s =
     (case get_bits os s of
        (Inl e, s') \<Rightarrow> (Inl e, s')
      | (Inr nbits, s') \<Rightarrow> (Inr (), emit Warn s'))"

text \<open>
  A failure to change the protection (also \<^verbatim>\<open>len(lpBuffer)\<close> raising for
  \<^verbatim>\<open>None\<close>) is a warning and the write is tried all the same, with the
  handle \<^verbatim>\<open>hProcess\<close> obtained at the start of \<^verbatim>\<open>poke\<close>; when the
  protection was changed it is put back in the \<^verbatim>\<open>finally\<close> clause, and an
  exception raised there replaces the outcome of the write.
\<close>

definition poke_protected ::
  "win32 \<Rightarrow> hproc \<Rightarrow> MemoryBasicInformation \<Rightarrow> int \<Rightarrow> bytes option \<Rightarrow> int \<Rightarrow> pstate
     \<Rightarrow> (exn + int) \<times> pstate" where
  "poke_protected os hProc mbi lpBaseAddress lpBuffer prot s =
     (case lpBuffer of
        None \<Rightarrow>
          (case poke_warn os s of
             (Inl e, s1) \<Rightarrow> (Inl e, s1)
           | (Inr u, s1) \<Rightarrow> poke_write os hProc lpBaseAddress lpBuffer s1)
      | Some data \<Rightarrow>
          (case mprotect os lpBaseAddress (int (length data)) prot s of
             (Inl e, s0) \<Rightarrow>
               (case poke_warn os s0 of
                  (Inl e1, s1) \<Rightarrow> (Inl e1, s1)
                | (Inr u, s1) \<Rightarrow> poke_write os hProc lpBaseAddress lpBuffer s1)
           | (Inr old_prot, s1) \<Rightarrow>
               (case poke_write os hProc lpBaseAddress lpBuffer s1 of
                  (r, s2) \<Rightarrow>
                    (case mprotect os lpBaseAddress (int (length data)) (Protect mbi) s2 of
                       (Inl e, s3) \<Rightarrow> (Inl e, s3)
                     | (Inr p, s3) \<Rightarrow> (r, s3)))))"

definition poke :: "win32 \<Rightarrow> int \<Rightarrow> bytes option \<Rightarrow> pstate \<Rightarrow> (exn + int) \<times> pstate" where
  "poke os lpBaseAddress lpBuffer =
     then_do (get_handle os (PROCESS_VM_WRITE OR PROCESS_VM_OPERATION OR PROCESS_QUERY_INFORMATION)) (\<lambda>hProc.
     then_do (mquery os lpBaseAddress) (\<lambda>mbi.
       if \<not> has_content os mbi then (\<lambda>s. (Inl (WindowsError ERROR_INVALID_ADDRESS), s))
       else
         (case poke_protection os mbi of
            None \<Rightarrow> poke_write os hProc lpBaseAddress lpBuffer
          | Some prot \<Rightarrow> poke_protected os hProc mbi lpBaseAddress lpBuffer prot)))"

text \<open>
  \<^verbatim>\<open>Process.write\<close> (\<open>write\<close> is a reserved word here, hence the suffix):
  \<^verbatim>\<open>poke\<close>, and an error when fewer bytes were written.
\<close>

definition write_mem :: "win32 \<Rightarrow> int \<Rightarrow> bytes option \<Rightarrow> pstate \<Rightarrow> (exn + unit) \<times> pstate" where
  "write_mem os lpBaseAddress lpBuffer =
     then_do (poke os lpBaseAddress lpBuffer) (\<lambda>r s.
       case lpBuffer of
         None \<Rightarrow> (Inl TypeError, s)
       | Some data \<Rightarrow>
           if r \<noteq> int (length data) then (Inl (WindowsError (GetLastError os (log s))), s)
           else (Inr (), s))"

section \<open>Suspending and resuming a process\<close>

text \<open>
  Modelled from the spec: the thread container (\<^verbatim>\<open>thread.py\<close>) is not part of
  \<^verbatim>\<open>process.py\<close>. \<^verbatim>\<open>scan_threads\<close> refreshes the thread IDs owned by the process,
  \<^verbatim>\<open>iter_threads\<close> goes through them, \<^verbatim>\<open>get_thread_count\<close> counts them, and
  \<^verbatim>\<open>Thread.suspend\<close> and \<^verbatim>\<open>Thread.resume\<close> are the suspend and resume
  primitives of the OS for one thread.
\<close>

definition scan_threads_of :: "win32 \<Rightarrow> pstate \<Rightarrow> (exn + unit) \<times> pstate" where
  "scan_threads_of os =
     then_do (\<lambda>s. os_call (Call_scan_threads (dwProcessId (self s)))
                     (\<lambda>evs. scan_threads os evs (dwProcessId (self s))) s)
       (\<lambda>tids s. (Inr (), s\<lparr>self := (self s)\<lparr>threads := tids\<rparr>\<rparr>))"

text \<open>The handlers of \<^verbatim>\<open>suspend\<close> and \<^verbatim>\<open>resume\<close>: undo, ignoring every error.\<close>

fun resume_all_ignoring :: "win32 \<Rightarrow> int list \<Rightarrow> pstate \<Rightarrow> pstate" where
  "resume_all_ignoring os [] s = s"
| "resume_all_ignoring os (t # ts) s =
     resume_all_ignoring os ts (snd (os_call (Call_Thread_resume t) (\<lambda>evs. Thread_resume os evs t) s))"

fun suspend_all_ignoring :: "win32 \<Rightarrow> int list \<Rightarrow> pstate \<Rightarrow> pstate" where
  "suspend_all_ignoring os [] s = s"
| "suspend_all_ignoring os (t # ts) s =
     suspend_all_ignoring os ts (snd (os_call (Call_Thread_suspend t) (\<lambda>evs. Thread_suspend os evs t) s))"

fun suspend_loop :: "win32 \<Rightarrow> int list \<Rightarrow> int list \<Rightarrow> pstate \<Rightarrow> (exn + unit) \<times> pstate" where
  "suspend_loop os [] suspended s = (Inr (), s)"
| "suspend_loop os (t # ts) suspended s =
     (case os_call (Call_Thread_suspend t) (\<lambda>evs. Thread_suspend os evs t) s of
        (Inl e, s1) \<Rightarrow> (Inl e, resume_all_ignoring os suspended s1)
      | (Inr u, s1) \<Rightarrow> suspend_loop os ts (suspended @ [t]) s1)"

fun resume_loop :: "win32 \<Rightarrow> int list \<Rightarrow> int list \<Rightarrow> pstate \<Rightarrow> (exn + unit) \<times> pstate" where
  "resume_loop os [] resumed s = (Inr (), s)"
| "resume_loop os (t # ts) resumed s =
     (case os_call (Call_Thread_resume t) (\<lambda>evs. Thread_resume os evs t) s of
        (Inl e, s1) \<Rightarrow> (Inl e, suspend_all_ignoring os resumed s1)
      | (Inr u, s1) \<Rightarrow> resume_loop os ts (resumed @ [t]) s1)"

text \<open>\<^verbatim>\<open>Process.suspend\<close>.\<close>

definition suspend :: "win32 \<Rightarrow> pstate \<Rightarrow> (exn + unit) \<times> pstate" where
  "suspend os =
     then_do (scan_threads_of os) (\<lambda>u s. suspend_loop os (threads (self s)) [] s)"

text \<open>\<^verbatim>\<open>Process.resume\<close>: the thread snapshot is refreshed only when it is empty.\<close>

definition resume :: "win32 \<Rightarrow> pstate \<Rightarrow> (exn + unit) \<times> pstate" where
  "resume os =
     then_do (\<lambda>s. if length (threads (self s)) = 0 then scan_threads_of os s else (Inr (), s))
       (\<lambda>u s. resume_loop os (threads (self s)) [] s)"

section \<open>Restoring a memory snapshot\<close>

text \<open>
  The block that \<^verbatim>\<open>__restore_mbi\<close> runs for the three transitions that allocate:
  \<^verbatim>\<open>win32.VirtualAllocEx\<close> at the captured base address with the captured size
  and protection; when the OS answers another address, that allocation is
  freed and the message of a \<^verbatim>\<open>RuntimeError\<close> is built with
  \<^verbatim>\<open>HexDump(old_mbi.BaseAddress, self.get_bits())\<close>: \<^verbatim>\<open>get_bits\<close> runs, and
  the exception that leaves the block is the one that the call of
  \<^verbatim>\<open>HexDump\<close> raises. Otherwise the tracked protection of the current region
  becomes the captured one. The result is the descriptor \<^verbatim>\<open>new_mbi\<close> as the
  block leaves it.
\<close>

definition raise_restore_error :: "win32 \<Rightarrow> MemoryBasicInformation \<Rightarrow> pstate \<Rightarrow> (exn + 'a) \<times> pstate" where
  "raise_restore_error os old_mbi s =
     (case get_bits os s of
        (Inl e, s') \<Rightarrow> (Inl e, s')
      | (Inr nbits, s') \<Rightarrow>
          (case HexDump (BaseAddress old_mbi) nbits of
             Inl e \<Rightarrow> (Inl e, s')
           | Inr msg \<Rightarrow> (Inl RuntimeError, s')))"

definition restore_alloc ::
  "win32 \<Rightarrow> hproc \<Rightarrow> MemoryBasicInformation \<Rightarrow> MemoryBasicInformation \<Rightarrow> int \<Rightarrow> pstate
     \<Rightarrow> (exn + MemoryBasicInformation) \<times> pstate" where
  "restore_alloc os hProc new_mbi old_mbi flAllocationType =
     then_do (os_call (Call_VirtualAllocEx hProc (BaseAddress old_mbi) (RegionSize old_mbi)
                         flAllocationType (Protect old_mbi))
                (\<lambda>evs. VirtualAllocEx os evs hProc (BaseAddress old_mbi) (RegionSize old_mbi)
                         flAllocationType (Protect old_mbi)))
       (\<lambda>address.
          if address \<noteq> BaseAddress old_mbi
          then then_do (free os address) (\<lambda>u. raise_restore_error os old_mbi)
          else (\<lambda>s. (Inr (new_mbi\<lparr>Protect := Protect old_mbi\<rparr>), s)))"

definition restore_free ::
  "win32 \<Rightarrow> hproc \<Rightarrow> MemoryBasicInformation \<Rightarrow> MemoryBasicInformation \<Rightarrow> int \<Rightarrow> pstate
     \<Rightarrow> (exn + MemoryBasicInformation) \<times> pstate" where
  "restore_free os hProc new_mbi old_mbi dwFreeType =
     then_do (os_call (Call_VirtualFreeEx hProc (BaseAddress old_mbi) (RegionSize old_mbi) dwFreeType)
                (\<lambda>evs. VirtualFreeEx os evs hProc (BaseAddress old_mbi) (RegionSize old_mbi) dwFreeType))
       (\<lambda>u s. (Inr new_mbi, s))"

text \<open>\<^verbatim>\<open>__restore_mbi\<close>, "Restore the region state", up to \<^verbatim>\<open>new_mbi.State = old_mbi.State\<close>.\<close>

definition restore_state ::
  "win32 \<Rightarrow> hproc \<Rightarrow> MemoryBasicInformation \<Rightarrow> MemoryBasicInformation \<Rightarrow> pstate
     \<Rightarrow> (exn + MemoryBasicInformation) \<times> pstate" where
  "restore_state os hProc new_mbi old_mbi =
     then_do
       (if State new_mbi \<noteq> State old_mbi then
          (if is_free new_mbi then
             (if is_reserved old_mbi
              then restore_alloc os hProc new_mbi old_mbi MEM_RESERVE
              else restore_alloc os hProc new_mbi old_mbi (MEM_RESERVE OR MEM_COMMIT))
           else if is_reserved new_mbi then
             (if is_commited old_mbi
              then restore_alloc os hProc new_mbi old_mbi MEM_COMMIT
              else restore_free os hProc new_mbi old_mbi MEM_RELEASE)
           else
             (if is_reserved old_mbi
              then restore_free os hProc new_mbi old_mbi MEM_DECOMMIT
              else restore_free os hProc new_mbi old_mbi (MEM_DECOMMIT OR MEM_RELEASE)))
        else (\<lambda>s. (Inr new_mbi, s)))
       (\<lambda>new_mbi' s. (Inr (new_mbi'\<lparr>State := State old_mbi\<rparr>), s))"

text \<open>\<^verbatim>\<open>__restore_mbi\<close>, "Restore the region permissions".\<close>

definition restore_permissions ::
  "win32 \<Rightarrow> hproc \<Rightarrow> MemoryBasicInformation \<Rightarrow> MemoryBasicInformation \<Rightarrow> pstate
     \<Rightarrow> (exn + MemoryBasicInformation) \<times> pstate" where
  "restore_permissions os hProc new_mbi old_mbi =
     (if is_commited old_mbi \<and> Protect old_mbi \<noteq> Protect new_mbi
      then then_do (os_call (Call_VirtualProtectEx hProc (BaseAddress old_mbi) (RegionSize old_mbi)
                               (Protect old_mbi))
                      (\<lambda>evs. VirtualProtectEx os evs hProc (BaseAddress old_mbi) (RegionSize old_mbi)
                               (Protect old_mbi)))
             (\<lambda>p s. (Inr (new_mbi\<lparr>Protect := Protect old_mbi\<rparr>), s))
      else (\<lambda>s. (Inr new_mbi, s)))"

text \<open>
  \<^verbatim>\<open>__restore_mbi\<close>, "Restore the region data". The captured bytes are the
  attribute \<^verbatim>\<open>old_mbi.content\<close>, passed on as it is, also when it is
  \<^verbatim>\<open>None\<close>.
\<close>

definition restore_data ::
  "win32 \<Rightarrow> MemoryBasicInformation \<Rightarrow> MemoryBasicInformation \<Rightarrow> bool \<Rightarrow> pstate
     \<Rightarrow> (exn + MemoryBasicInformation) \<times> pstate" where
  "restore_data os new_mbi old_mbi bSkipMappedFiles =
     (if has_content os old_mbi then
        then_do
          (if Type old_mbi \<noteq> 0 then
             (if \<not> bSkipMappedFiles
              then then_do (poke os (BaseAddress old_mbi) (content old_mbi)) (\<lambda>r s. (Inr (), s))
              else (\<lambda>s. (Inr (), s)))
           else write_mem os (BaseAddress old_mbi) (content old_mbi))
          (\<lambda>u s. (Inr (new_mbi\<lparr>content := content old_mbi\<rparr>), s))
      else (\<lambda>s. (Inr new_mbi, s)))"

text \<open>
  The \<^verbatim>\<open>try\<close> block of \<^verbatim>\<open>__restore_mbi\<close>: the three steps in order. The second
  component is \<^verbatim>\<open>new_mbi\<close> as the block leaves it, because the caller's page
  loop passes the same object to the next call.
\<close>

definition restore_mbi_try ::
  "win32 \<Rightarrow> hproc \<Rightarrow> MemoryBasicInformation \<Rightarrow> MemoryBasicInformation \<Rightarrow> bool \<Rightarrow> pstate
     \<Rightarrow> (exn + unit) \<times> MemoryBasicInformation \<times> pstate" where
  "restore_mbi_try os hProc new_mbi old_mbi bSkipMappedFiles s =
     (case restore_state os hProc new_mbi old_mbi s of
        (Inl e, s1) \<Rightarrow> (Inl e, new_mbi, s1)
      | (Inr new1, s1) \<Rightarrow>
          (case restore_permissions os hProc new1 old_mbi s1 of
             (Inl e, s2) \<Rightarrow> (Inl e, new1, s2)
           | (Inr new2, s2) \<Rightarrow>
               (case restore_data os new2 old_mbi bSkipMappedFiles s2 of
                  (Inl e, s3) \<Rightarrow> (Inl e, new2, s3)
                | (Inr new3, s3) \<Rightarrow> (Inr (), new3, s3))))"

text \<open>
  \<^verbatim>\<open>Process.__restore_mbi\<close>: on an exception, re-raise it unless
  \<^verbatim>\<open>bSkipOnError\<close>; else build the message of the warning, again with
  \<^verbatim>\<open>HexDump(old_mbi.BaseAddress, self.get_bits())\<close>, and warn. The exception
  that building the message raises leaves \<^verbatim>\<open>__restore_mbi\<close>.
\<close>

definition restore_mbi ::
  "win32 \<Rightarrow> hproc \<Rightarrow> MemoryBasicInformation \<Rightarrow> MemoryBasicInformation \<Rightarrow> bool \<Rightarrow> bool \<Rightarrow> pstate
     \<Rightarrow> (exn + unit) \<times> MemoryBasicInformation \<times> pstate" where
  "restore_mbi os hProc new_mbi old_mbi bSkipMappedFiles bSkipOnError s =
     (case restore_mbi_try os hProc new_mbi old_mbi bSkipMappedFiles s of
        (Inl e, new_mbi', s') \<Rightarrow>
          (if \<not> bSkipOnError then (Inl e, new_mbi', s')
           else (case get_bits os s' of
                   (Inl e1, s1) \<Rightarrow> (Inl e1, new_mbi', s1)
                 | (Inr nbits, s1) \<Rightarrow>
                     (case HexDump (BaseAddress old_mbi) nbits of
                        Inl e1 \<Rightarrow> (Inl e1, new_mbi', s1)
                      | Inr msg \<Rightarrow> (Inr (), new_mbi', emit Warn s1))))
      | (Inr u, new_mbi', s') \<Rightarrow> (Inr (), new_mbi', s'))"

text \<open>
  The page loop of \<^verbatim>\<open>restore_memory_snapshot\<close>: the same two descriptors, moved
  from page to page.
\<close>

function restore_pages ::
  "win32 \<Rightarrow> hproc \<Rightarrow> MemoryBasicInformation \<Rightarrow> MemoryBasicInformation \<Rightarrow> bool \<Rightarrow> bool
     \<Rightarrow> int \<Rightarrow> int \<Rightarrow> pstate \<Rightarrow> (exn + unit) \<times> pstate" where
  "restore_pages os hProc new_mbi old_mbi bSkipMappedFiles bSkipOnError address endAddr s =
     (if address < endAddr
      then (case restore_mbi os hProc (new_mbi\<lparr>BaseAddress := address\<rparr>)
                   (old_mbi\<lparr>BaseAddress := address\<rparr>) bSkipMappedFiles bSkipOnError s of
              (Inl e, new_mbi', s') \<Rightarrow> (Inl e, s')
            | (Inr u, new_mbi', s') \<Rightarrow>
                restore_pages os hProc new_mbi' (old_mbi\<lparr>BaseAddress := address\<rparr>)
                  bSkipMappedFiles bSkipOnError (address + pageSize) endAddr s')
      else (Inr (), s))"
  by pat_completeness auto
termination
  by (relation "measure (\<lambda>(os, hProc, new_mbi, old_mbi, bSkipMappedFiles, bSkipOnError, address, endAddr, s).
        nat (endAddr - address))")
     (auto simp add: pageSize_def)

text \<open>
  The body of the \<^verbatim>\<open>for\<close> loop of \<^verbatim>\<open>restore_memory_snapshot\<close> for one captured
  region. Modelled from the spec: the copy made by
  \<^verbatim>\<open>win32.MemoryBasicInformation(old_mbi)\<close> is a descriptor with the same
  attributes.
\<close>

definition restore_region ::
  "win32 \<Rightarrow> hproc \<Rightarrow> MemoryBasicInformation \<Rightarrow> bool \<Rightarrow> bool \<Rightarrow> pstate \<Rightarrow> (exn + unit) \<times> pstate" where
  "restore_region os hProc old_mbi bSkipMappedFiles bSkipOnError =
     then_do (mquery os (BaseAddress old_mbi)) (\<lambda>new_mbi s.
       if BaseAddress new_mbi = BaseAddress old_mbi \<and> RegionSize new_mbi = RegionSize old_mbi
       then (case restore_mbi os hProc new_mbi old_mbi bSkipMappedFiles bSkipOnError s of
               (r, new_mbi', s') \<Rightarrow> (r, s'))
       else
         (let old_start = BaseAddress old_mbi;
              old_end = old_start + RegionSize old_mbi;
              new_start = BaseAddress new_mbi;
              new_end = new_start + RegionSize new_mbi;
              start = (if old_start > new_start then old_start else new_start);
              endAddr = (if old_end < new_end then old_end else new_end)
          in restore_pages os hProc (new_mbi\<lparr>RegionSize := pageSize\<rparr>) (old_mbi\<lparr>RegionSize := pageSize\<rparr>)
               bSkipMappedFiles bSkipOnError start endAddr s))"

text \<open>
  What a caller can pass as \<^verbatim>\<open>snapshot\<close>: a list, whose elements are region
  descriptors or other objects, or something that is not a list (a
  generator, a \<^verbatim>\<open>Regenerator\<close>, \<^verbatim>\<open>None\<close>). Reading \<^verbatim>\<open>BaseAddress\<close> from an
  object that is not a region descriptor raises \<^verbatim>\<open>AttributeError\<close>.
\<close>

datatype snapshot_item = Region MemoryBasicInformation | NotRegion

datatype snapshot_arg = SnapshotList "snapshot_item list" | NotAList

fun restore_regions ::
  "win32 \<Rightarrow> hproc \<Rightarrow> snapshot_item list \<Rightarrow> bool \<Rightarrow> bool \<Rightarrow> pstate \<Rightarrow> (exn + unit) \<times> pstate" where
  "restore_regions os hProc [] bSkipMappedFiles bSkipOnError s = (Inr (), s)"
| "restore_regions os hProc (NotRegion # rest) bSkipMappedFiles bSkipOnError s = (Inl AttributeError, s)"
| "restore_regions os hProc (Region old_mbi # rest) bSkipMappedFiles bSkipOnError s =
     (case restore_region os hProc old_mbi bSkipMappedFiles bSkipOnError s of
        (Inl e, s') \<Rightarrow> (Inl e, s')
      | (Inr u, s') \<Rightarrow> restore_regions os hProc rest bSkipMappedFiles bSkipOnError s')"

text \<open>
  \<^verbatim>\<open>Process.restore_memory_snapshot\<close>. The argument check, the handle, the
  suspension, then the loop inside \<^verbatim>\<open>try\<close> and \<^verbatim>\<open>self.resume()\<close> in
  \<^verbatim>\<open>finally\<close>: an exception raised by \<^verbatim>\<open>resume\<close> replaces the outcome of the
  loop.
\<close>

definition restore_memory_snapshot ::
  "win32 \<Rightarrow> snapshot_arg \<Rightarrow> bool \<Rightarrow> bool \<Rightarrow> pstate \<Rightarrow> (exn + unit) \<times> pstate" where
  "restore_memory_snapshot os snapshot bSkipMappedFiles bSkipOnError s =
     (case snapshot of
        SnapshotList (Region first_mbi # rest) \<Rightarrow>
          (case get_handle os (PROCESS_VM_WRITE OR PROCESS_VM_OPERATION OR PROCESS_SUSPEND_RESUME
                               OR PROCESS_QUERY_INFORMATION) s of
             (Inl e, s1) \<Rightarrow> (Inl e, s1)
           | (Inr hProc, s1) \<Rightarrow>
               (case suspend os s1 of
                  (Inl e, s2) \<Rightarrow> (Inl e, s2)
                | (Inr u, s2) \<Rightarrow>
                    (case restore_regions os hProc (Region first_mbi # rest)
                            bSkipMappedFiles bSkipOnError s2 of
                       (r, s3) \<Rightarrow>
                         (case resume os s3 of
                            (Inl e, s4) \<Rightarrow> (Inl e, s4)
                          | (Inr u, s4) \<Rightarrow> (r, s4)))))
      | _ \<Rightarrow> (Inl TypeError, s))"

section \<open>A concrete OS and a concrete process for the examples\<close>

text \<open>
  A target with one committed read-write private page at \<open>0x10000\<close>, a guard
  page after it, and free space around them up to \<open>0x20000\<close>. A query
  answers the region from the page of the queried address to the end of the
  run of pages with the same attributes, and fails with error 87 outside the
  address space. Every other call succeeds, \<^verbatim>\<open>OpenProcess\<close> answers a fresh handle value, and the process has
  the threads 1 and 2.
\<close>

definition demo_region :: "int \<Rightarrow> int \<Rightarrow> int \<Rightarrow> int \<Rightarrow> int \<Rightarrow> MemoryBasicInformation" where
  "demo_region base sz st prot ty =
     \<lparr>BaseAddress = base, RegionSize = sz, State = st, Protect = prot, Type = ty,
      filename = None, content = None\<rparr>"

definition demo_query :: "int \<Rightarrow> int + MemoryBasicInformation" where
  "demo_query a =
     (let b = a - a mod 0x1000 in
      if a < 0 then Inl 87
      else if a < 0x10000 then Inr (demo_region b (0x10000 - b) 0x10000 1 0)
      else if a < 0x11000 then Inr (demo_region 0x10000 0x1000 0x1000 4 0x20000)
      else if a < 0x12000 then Inr (demo_region 0x11000 0x1000 0x1000 0x104 0x20000)
      else if a < 0x20000 then Inr (demo_region b (0x20000 - b) 0x10000 1 0)
      else Inl 87)"

definition demo_align :: "int option \<Rightarrow> int option \<Rightarrow> int \<times> int" where
  "demo_align minAddr maxAddr =
     (let b = (case minAddr of None \<Rightarrow> 0 | Some a \<Rightarrow> a);
          e = (case maxAddr of None \<Rightarrow> 0x7FFFFFFF | Some a \<Rightarrow> a);
          b' = (if e < b then e else b);
          e' = (if e < b then b else e)
      in (b' - b' mod 0x1000, if e' mod 0x1000 = 0 then e' else e' + 0x1000 - e' mod 0x1000))"

definition os_demo :: win32 where
  "os_demo = \<lparr>
     OpenProcess = (\<lambda>evs a p. Inr (int (length evs))),
     CloseHandle = (\<lambda>evs h. Inr ()),
     VirtualQueryEx = (\<lambda>evs h a. demo_query a),
     VirtualAllocEx = (\<lambda>evs h a n t p. Inr a),
     VirtualFreeEx = (\<lambda>evs h a n t. Inr ()),
     VirtualProtectEx = (\<lambda>evs h a n p. Inr 4),
     ReadProcessMemory = (\<lambda>evs h a n. Inr (replicate (nat n) 0)),
     WriteProcessMemory = (\<lambda>evs h a b. Inr (int (length b))),
     IsWow64Process = (\<lambda>evs h. Inr False),
     bits = 64,
     wow64 = False,
     PROCESS_QUERY_LIMITED_INFORMATION = Some 0x1000,
     scan_threads = (\<lambda>evs p. Inr [1, 2]),
     Thread_suspend = (\<lambda>evs t. Inr ()),
     Thread_resume = (\<lambda>evs t. Inr ()),
     GetLastError = (\<lambda>evs. 0),
     GetCurrentProcessId = 1,
     EnumProcesses = (\<lambda>evs. Inr [1, 100, 200]),
     CreateToolhelp32Snapshot = (\<lambda>evs. Inr ([(1, Some ''self.exe''), (100, Some ''a.exe'')], [(11, 1), (101, 100)])),
     WTSEnumerateProcesses = (\<lambda>evs. Inr [(1, Some ''self.exe''), (100, Some ''a.exe'')]),
     scan_modules_of = (\<lambda>evs p. Inr [0x400000]),
     get_image_name = (\<lambda>evs p. Inr (Some ''C:/bin/a.exe'')),
     align_address_range = demo_align,
     has_content = (\<lambda>m. State m = 0x1000 \<and> (Protect m AND 0x101) = 0),
     is_readable = (\<lambda>m. State m = 0x1000 \<and> (Protect m AND 0x101) = 0 \<and> (Protect m AND 0xEE) \<noteq> 0),
     is_writeable = (\<lambda>m. State m = 0x1000 \<and> (Protect m AND 0x101) = 0 \<and> (Protect m AND 0xCC) \<noteq> 0),
     is_executable = (\<lambda>m. State m = 0x1000 \<and> (Protect m AND 0x101) = 0 \<and> (Protect m AND 0xF0) \<noteq> 0)
   \<rparr>"

definition proc_demo :: pstate where
  "proc_demo = \<lparr>self = \<lparr>oid = 0, dwProcessId = 1234, hProcess = HNone, fileName = None,
                          threads = [], modules = [], Process_wow64 = None\<rparr>, log = []\<rparr>"

section \<open>A process that holds a handle\<close>

text \<open>
  The process 1234 with a handle that carries the rights that
  \<^verbatim>\<open>restore_memory_snapshot\<close> asks for, and the threads 1 and 2.
\<close>

definition held_demo :: pstate where
  "held_demo = \<lparr>self = \<lparr>oid = 0, dwProcessId = 1234,
                          hProcess = HObj \<lparr>hvalue = 7, dwAccess = 0xC28\<rparr>, fileName = None,
                          threads = [1, 2], modules = [], Process_wow64 = None\<rparr>, log = []\<rparr>"

section \<open>Kinds of logged calls\<close>

datatype kind =
  K_handle | K_query | K_alloc | K_free | K_protect | K_read | K_write | K_thread | K_enum | K_warn

fun kind_of :: "event \<Rightarrow> kind" where
  "kind_of (Call_OpenProcess a p) = K_handle"
| "kind_of (Call_CloseHandle h) = K_handle"
| "kind_of (Call_VirtualQueryEx h a) = K_query"
| "kind_of (Call_VirtualAllocEx h a n t p) = K_alloc"
| "kind_of (Call_VirtualFreeEx h a n t) = K_free"
| "kind_of (Call_VirtualProtectEx h a n p) = K_protect"
| "kind_of (Call_ReadProcessMemory h a n) = K_read"
| "kind_of (Call_WriteProcessMemory h a b) = K_write"
| "kind_of (Call_IsWow64Process h) = K_query"
| "kind_of (Call_scan_threads p) = K_thread"
| "kind_of (Call_Thread_suspend t) = K_thread"
| "kind_of (Call_Thread_resume t) = K_thread"
| "kind_of Call_EnumProcesses = K_enum"
| "kind_of Call_CreateToolhelp32Snapshot = K_enum"
| "kind_of Call_WTSEnumerateProcesses = K_enum"
| "kind_of (Call_scan_modules p) = K_enum"
| "kind_of (Call_get_image_name p) = K_enum"
| "kind_of Warn = K_warn"

text \<open>The calls that change the memory of the target process.\<close>

definition is_mutation :: "event \<Rightarrow> bool" where
  "is_mutation ev = (kind_of ev = K_alloc \<or> kind_of ev = K_free \<or> kind_of ev = K_protect \<or> kind_of ev = K_write)"

text \<open>
  A computation \<open>emits K\<close> when, from every state, it only appends to the log,
  and only calls of the kinds in \<open>K\<close>.
\<close>

definition emits :: "kind set \<Rightarrow> (pstate \<Rightarrow> 'a \<times> pstate) \<Rightarrow> bool" where
  "emits K m = (\<forall>s. \<exists>evs. log (snd (m s)) = log s @ evs \<and> kind_of ` set evs \<subseteq> K)"

text \<open>Descriptors of the page at \<open>0x10000\<close>: free, committed read-write with its
  captured bytes, and committed read-only.\<close>

definition free_page :: MemoryBasicInformation where
  "free_page = demo_region 0x10000 0x1000 0x10000 1 0"

definition zero_bytes :: bytes where
  "zero_bytes = replicate 4096 0"

definition rw_page :: MemoryBasicInformation where
  "rw_page = (demo_region 0x10000 0x1000 0x1000 4 0x20000)\<lparr>content := Some zero_bytes\<rparr>"

definition ro_page :: MemoryBasicInformation where
  "ro_page = demo_region 0x10000 0x1000 0x1000 2 0x20000"

definition hp_demo :: hproc where
  "hp_demo = HObj \<lparr>hvalue = 7, dwAccess = 0xC28\<rparr>"



section \<open>What a walk over the memory map should yield\<close>

text \<open>
  The OS answers a query with the region that starts at the page of the
  queried address, of a positive size that is a whole number of pages.
\<close>

definition page_granular :: "win32 \<Rightarrow> bool" where
  "page_granular os =
     (\<forall>evs h a m. VirtualQueryEx os evs h a = Inr m \<longrightarrow>
        BaseAddress m = a - a mod pageSize \<and> 0 < RegionSize m \<and> RegionSize m mod pageSize = 0)"

definition region_end :: "MemoryBasicInformation \<Rightarrow> int" where
  "region_end m = BaseAddress m + RegionSize m"

text \<open>Each region starts where the one before it ends.\<close>

fun contiguous :: "MemoryBasicInformation list \<Rightarrow> bool" where
  "contiguous [] = True"
| "contiguous [m] = True"
| "contiguous (m # m' # ms) = (BaseAddress m' = region_end m \<and> contiguous (m' # ms))"

text \<open>Where the walk stands after yielding \<open>mbis\<close>, having started at \<open>minA\<close>.\<close>

definition walk_cursor :: "int \<Rightarrow> MemoryBasicInformation list \<Rightarrow> int" where
  "walk_cursor minA mbis = (if mbis = [] then minA else region_end (last mbis))"

text \<open>The handle that the concrete OS hands out for a read, and the guard page.\<close>

definition peek_handle :: hproc where
  "peek_handle = HObj \<lparr>hvalue = 0, dwAccess = 0xC38\<rparr>"

definition guard_page :: MemoryBasicInformation where
  "guard_page = demo_region 0x11000 0x1000 0x1000 0x104 0x20000"

section \<open>The process container and its scans\<close>

text \<open>
  \<^verbatim>\<open>_ProcessContainer\<close>: the dictionary \<^verbatim>\<open>__processDict\<close> from process ID to
  \<^verbatim>\<open>Process\<close> object, in insertion order, as an association list; the
  counter that gives each new object its identity; and the log of OS calls.
\<close>

record container =
  processDict :: "(int \<times> Process) list"
  next_oid :: nat
  clog :: "event list"

definition keys :: "container \<Rightarrow> int list" where
  "keys c = map fst (processDict c)"

definition cemit :: "event \<Rightarrow> container \<Rightarrow> container" where
  "cemit ev c = c\<lparr>clog := clog c @ [ev]\<rparr>"

text \<open>A Python value is false when it is \<^verbatim>\<open>None\<close> or the empty string.\<close>

definition truthy :: "string option \<Rightarrow> bool" where
  "truthy fn = (case fn of None \<Rightarrow> False | Some n \<Rightarrow> n \<noteq> [])"

text \<open>The constructor \<^verbatim>\<open>Process(dwProcessId, fileName=fileName)\<close>: a new object.\<close>

definition new_Process :: "int \<Rightarrow> string option \<Rightarrow> container \<Rightarrow> Process \<times> container" where
  "new_Process pid fn c =
     (\<lparr>oid = next_oid c, dwProcessId = pid, hProcess = HNone, fileName = fn,
       threads = [], modules = [], Process_wow64 = None\<rparr>,
      c\<lparr>next_oid := Suc (next_oid c)\<rparr>)"

text \<open>\<^verbatim>\<open>_add_process\<close>: \<^verbatim>\<open>self.__processDict[dwProcessId] = aProcess\<close>.\<close>

definition add_process :: "Process \<Rightarrow> container \<Rightarrow> container" where
  "add_process aProcess c =
     c\<lparr>processDict := AList.update (dwProcessId aProcess) aProcess (processDict c)\<rparr>"

definition add_new_process :: "int \<Rightarrow> string option \<Rightarrow> container \<Rightarrow> container" where
  "add_new_process pid fn c = (case new_Process pid fn c of (p, c') \<Rightarrow> add_process p c')"

text \<open>
  \<^verbatim>\<open>Process.clear\<close>. Modelled from the spec: \<^verbatim>\<open>clear_threads\<close> and
  \<^verbatim>\<open>clear_modules\<close> belong to the thread and module containers, which are not
  part of \<^verbatim>\<open>process.py\<close>; they empty the two collections. The handle is
  closed in the \<^verbatim>\<open>finally\<close> clause.
\<close>

definition clear :: "win32 \<Rightarrow> pstate \<Rightarrow> (exn + unit) \<times> pstate" where
  "clear os s = close_handle os (s\<lparr>self := (self s)\<lparr>threads := [], modules := []\<rparr>\<rparr>)"

text \<open>
  \<^verbatim>\<open>_del_process\<close>: pop the object and clear it; an unknown ID is a warning.
  An exception of \<^verbatim>\<open>clear\<close> propagates, with the object already removed.
\<close>

definition del_process :: "win32 \<Rightarrow> int \<Rightarrow> container \<Rightarrow> (exn + unit) \<times> container" where
  "del_process os pid c =
     (case map_of (processDict c) pid of
        None \<Rightarrow> (Inr (), cemit Warn c)
      | Some aProcess \<Rightarrow>
          (case clear os \<lparr>self = aProcess, log = clog c\<rparr> of
             (r, s') \<Rightarrow> (r, c\<lparr>processDict := AList.delete pid (processDict c), clog := log s'\<rparr>)))"

fun del_processes :: "win32 \<Rightarrow> int list \<Rightarrow> container \<Rightarrow> (exn + unit) \<times> container" where
  "del_processes os [] c = (Inr (), c)"
| "del_processes os (pid # pids) c =
     (case del_process os pid c of
        (Inl e, c') \<Rightarrow> (Inl e, c')
      | (Inr u, c') \<Rightarrow> del_processes os pids c')"

text \<open>
  \<^verbatim>\<open>scan_processes_fast\<close>. A Python set is iterated in an order the language
  does not fix; the model goes through it in the order of first occurrence.
\<close>

definition scan_processes_fast :: "win32 \<Rightarrow> container \<Rightarrow> (exn + unit) \<times> container" where
  "scan_processes_fast os c =
     (case EnumProcesses os (clog c) of
        Inl err \<Rightarrow> (Inl (WindowsError err), cemit Call_EnumProcesses c)
      | Inr pids \<Rightarrow>
          (let c0 = cemit Call_EnumProcesses c;
               our_pid = GetCurrentProcessId os;
               new_pids = removeAll our_pid (remdups pids);
               old_pids = removeAll our_pid (keys c0);
               c1 = fold (\<lambda>pid. add_new_process pid None)
                      (filter (\<lambda>pid. pid \<notin> set old_pids) new_pids) c0
           in del_processes os (filter (\<lambda>pid. pid \<notin> set new_pids) old_pids) c1))"

text \<open>
  The two loops of \<^verbatim>\<open>scan_processes_and_threads\<close> over the entries of the
  Toolhelp snapshot. The state of the first is the set \<^verbatim>\<open>dead_pids\<close> and the
  container; the second also collects \<^verbatim>\<open>found_tids\<close>. A known process gets
  the name of the entry only when it has none (\<open>fill_fileName\<close>).
\<close>

definition fill_fileName :: "int \<Rightarrow> string option \<Rightarrow> container \<Rightarrow> container" where
  "fill_fileName pid fn c =
     (case map_of (processDict c) pid of
        None \<Rightarrow> c
      | Some aProcess \<Rightarrow>
          if truthy fn \<and> \<not> truthy (fileName aProcess)
          then c\<lparr>processDict := AList.update pid (aProcess\<lparr>fileName := fn\<rparr>) (processDict c)\<rparr>
          else c)"

fun scan_process_entries ::
  "int \<Rightarrow> (int \<times> string option) list \<Rightarrow> int list \<times> container \<Rightarrow> int list \<times> container" where
  "scan_process_entries our_pid [] (dead_pids, c) = (dead_pids, c)"
| "scan_process_entries our_pid ((pid, fn) # pes) (dead_pids, c) =
     (if pid \<noteq> our_pid
      then scan_process_entries our_pid pes
             (removeAll pid dead_pids,
              if pid \<notin> set (keys c) then add_new_process pid fn c
              else fill_fileName pid fn c)
      else scan_process_entries our_pid pes (dead_pids, c))"

definition add_thread :: "int \<Rightarrow> int \<Rightarrow> container \<Rightarrow> container" where
  "add_thread pid tid c =
     (case map_of (processDict c) pid of
        None \<Rightarrow> c
      | Some aProcess \<Rightarrow>
          if tid \<notin> set (threads aProcess)
          then c\<lparr>processDict := AList.update pid (aProcess\<lparr>threads := threads aProcess @ [tid]\<rparr>)
                                   (processDict c)\<rparr>
          else c)"

fun scan_thread_entries ::
  "int \<Rightarrow> (int \<times> int) list \<Rightarrow> int list \<times> int list \<times> container \<Rightarrow> int list \<times> int list \<times> container" where
  "scan_thread_entries our_pid [] (dead_pids, found_tids, c) = (dead_pids, found_tids, c)"
| "scan_thread_entries our_pid ((dwThreadId, pid) # tes) (dead_pids, found_tids, c) =
     (if pid \<noteq> our_pid
      then scan_thread_entries our_pid tes
             (removeAll pid dead_pids,
              dwThreadId # found_tids,
              add_thread pid dwThreadId
                (if pid \<in> set (keys c) then c else add_new_process pid None c))
      else scan_thread_entries our_pid tes (dead_pids, found_tids, c))"

text \<open>"Remove dead threads": every process keeps the threads that were found.\<close>

definition del_dead_threads :: "int list \<Rightarrow> container \<Rightarrow> container" where
  "del_dead_threads found_tids c =
     c\<lparr>processDict :=
         map (\<lambda>(pid, aProcess). (pid, aProcess\<lparr>threads := filter (\<lambda>tid. tid \<in> set found_tids)
                                                               (threads aProcess)\<rparr>))
           (processDict c)\<rparr>"

text \<open>
  \<^verbatim>\<open>scan_processes_and_threads\<close>: when the snapshot cannot be taken the
  container is left as it was.
\<close>

definition scan_processes_and_threads :: "win32 \<Rightarrow> container \<Rightarrow> (exn + unit) \<times> container" where
  "scan_processes_and_threads os c =
     (case CreateToolhelp32Snapshot os (clog c) of
        Inl err \<Rightarrow> (Inl (WindowsError err), cemit Call_CreateToolhelp32Snapshot c)
      | Inr (pes, tes) \<Rightarrow>
          (let our_pid = GetCurrentProcessId os;
               dead_pids = removeAll our_pid (keys c);
               c0 = cemit Call_CreateToolhelp32Snapshot c
           in case scan_process_entries our_pid pes (dead_pids, c0) of
                (dead_pids1, c1) \<Rightarrow>
                  (case scan_thread_entries our_pid tes (dead_pids1, [], c1) of
                     (dead_pids2, found_tids, c2) \<Rightarrow>
                       (case del_processes os dead_pids2 c2 of
                          (Inl e, c3) \<Rightarrow> (Inl e, c3)
                        | (Inr u, c3) \<Rightarrow> (Inr (), del_dead_threads found_tids c3)))))"

text \<open>
  \<^verbatim>\<open>scan_processes\<close>, the session source. Releasing the buffer of the
  enumeration changes nothing that is modelled.
\<close>

definition scan_processes :: "win32 \<Rightarrow> container \<Rightarrow> (exn + unit) \<times> container" where
  "scan_processes os c =
     (case WTSEnumerateProcesses os (clog c) of
        Inl err \<Rightarrow> (Inl (WindowsError err), cemit Call_WTSEnumerateProcesses c)
      | Inr infos \<Rightarrow>
          (let our_pid = GetCurrentProcessId os;
               dead_pids = removeAll our_pid (keys c);
               c0 = cemit Call_WTSEnumerateProcesses c
           in case scan_process_entries our_pid infos (dead_pids, c0) of
                (dead_pids1, c1) \<Rightarrow> del_processes os dead_pids1 c1))"

text \<open>
  The per-process steps of \<^verbatim>\<open>scan\<close>. Each goes through the processes of the
  dictionary and answers whether every one of them succeeded.
  \<open>backfill_threads\<close> is the loop of the fallback: \<^verbatim>\<open>aProcess.scan_threads()\<close>
  for the processes that have thread IDs, a \<^verbatim>\<open>WindowsError\<close> clearing
  \<^verbatim>\<open>has_threads\<close>.
\<close>

definition set_process :: "int \<Rightarrow> Process \<Rightarrow> container \<Rightarrow> container" where
  "set_process pid aProcess c = c\<lparr>processDict := AList.update pid aProcess (processDict c)\<rparr>"

fun backfill_threads :: "win32 \<Rightarrow> (int \<times> Process) list \<Rightarrow> bool \<times> container \<Rightarrow> bool \<times> container" where
  "backfill_threads os [] (has_threads, c) = (has_threads, c)"
| "backfill_threads os ((pid, aProcess) # ps) (has_threads, c) =
     (if threads aProcess \<noteq> []
      then (case scan_threads os (clog c) (dwProcessId aProcess) of
              Inl err \<Rightarrow>
                backfill_threads os ps (False, cemit (Call_scan_threads (dwProcessId aProcess)) c)
            | Inr tids \<Rightarrow>
                backfill_threads os ps
                  (has_threads,
                   set_process pid (aProcess\<lparr>threads := tids\<rparr>)
                     (cemit (Call_scan_threads (dwProcessId aProcess)) c)))
      else backfill_threads os ps (has_threads, c))"

text \<open>\<^verbatim>\<open>_ProcessContainer.scan_modules\<close>.\<close>

fun scan_modules_loop :: "win32 \<Rightarrow> (int \<times> Process) list \<Rightarrow> bool \<times> container \<Rightarrow> bool \<times> container" where
  "scan_modules_loop os [] (complete, c) = (complete, c)"
| "scan_modules_loop os ((pid, aProcess) # ps) (complete, c) =
     (case scan_modules_of os (clog c) (dwProcessId aProcess) of
        Inl err \<Rightarrow>
          scan_modules_loop os ps (False, cemit (Call_scan_modules (dwProcessId aProcess)) c)
      | Inr bases \<Rightarrow>
          scan_modules_loop os ps
            (complete,
             set_process pid (aProcess\<lparr>modules := bases\<rparr>)
               (cemit (Call_scan_modules (dwProcessId aProcess)) c)))"

definition scan_modules :: "win32 \<Rightarrow> container \<Rightarrow> bool \<times> container" where
  "scan_modules os c = scan_modules_loop os (processDict c) (True, c)"

text \<open>
  \<^verbatim>\<open>scan_process_filenames\<close>: the name is reset, \<^verbatim>\<open>get_filename\<close> asks
  \<^verbatim>\<open>get_image_name\<close> for it, and when no name comes back (an empty one,
  \<^verbatim>\<open>None\<close> or an exception) the old name is put back and the scan is not
  complete.
\<close>

fun scan_process_filenames_loop ::
  "win32 \<Rightarrow> (int \<times> Process) list \<Rightarrow> bool \<times> container \<Rightarrow> bool \<times> container" where
  "scan_process_filenames_loop os [] (complete, c) = (complete, c)"
| "scan_process_filenames_loop os ((pid, aProcess) # ps) (complete, c) =
     (case get_image_name os (clog c) (dwProcessId aProcess) of
        Inl e \<Rightarrow>
          scan_process_filenames_loop os ps
            (False, cemit (Call_get_image_name (dwProcessId aProcess)) c)
      | Inr new_name \<Rightarrow>
          if truthy new_name
          then scan_process_filenames_loop os ps
                 (complete,
                  set_process pid (aProcess\<lparr>fileName := new_name\<rparr>)
                    (cemit (Call_get_image_name (dwProcessId aProcess)) c))
          else scan_process_filenames_loop os ps
                 (False, cemit (Call_get_image_name (dwProcessId aProcess)) c))"

definition scan_process_filenames :: "win32 \<Rightarrow> container \<Rightarrow> bool \<times> container" where
  "scan_process_filenames os c = scan_process_filenames_loop os (processDict c) (True, c)"

text \<open>
  The \<^verbatim>\<open>try\<close> statement of \<^verbatim>\<open>scan\<close> up to its \<^verbatim>\<open>finally\<close> clause: the Toolhelp
  scan, and on any exception the fast scan and the thread backfill. The
  result is \<^verbatim>\<open>has_threads\<close>, or the exception that is pending when the
  \<^verbatim>\<open>finally\<close> clause runs.
\<close>

definition scan_discover :: "win32 \<Rightarrow> container \<Rightarrow> (exn + bool) \<times> container" where
  "scan_discover os c =
     (case scan_processes_and_threads os c of
        (Inr u, c1) \<Rightarrow> (Inr True, c1)
      | (Inl e, c1) \<Rightarrow>
          (case scan_processes_fast os c1 of
             (Inl e2, c2) \<Rightarrow> (Inl e2, c2)
           | (Inr u, c2) \<Rightarrow>
               (case backfill_threads os (processDict c2) (True, c2) of
                  (has_threads, c3) \<Rightarrow> (Inr has_threads, c3))))"

text \<open>
  \<^verbatim>\<open>_ProcessContainer.scan\<close>. The session scan runs in the \<^verbatim>\<open>finally\<close> clause:
  its exception, or else the pending one, leaves \<^verbatim>\<open>scan\<close>; otherwise the
  module scan and the filename completion follow and the three flags are
  combined.
\<close>

definition scan :: "win32 \<Rightarrow> container \<Rightarrow> (exn + bool) \<times> container" where
  "scan os c =
     (case scan_discover os c of
        (r, c1) \<Rightarrow>
          (case scan_processes os c1 of
             (Inl e, c2) \<Rightarrow> (Inl e, c2)
           | (Inr u, c2) \<Rightarrow>
               (case r of
                  Inl e \<Rightarrow> (Inl e, c2)
                | Inr has_threads \<Rightarrow>
                    (case scan_modules os c2 of
                       (has_modules, c3) \<Rightarrow>
                         (case scan_process_filenames os c3 of
                            (has_full_names, c4) \<Rightarrow>
                              (Inr (has_threads \<and> has_modules \<and> has_full_names), c4))))))"

definition empty_container :: container where
  "empty_container = \<lparr>processDict = [], next_oid = 0, clog = []\<rparr>"

text \<open>
  Reconciliation as the specification words it, for the before-set \<open>B\<close>, the
  scanned set \<open>S\<close>, the tracked set \<open>K\<close> after the scan and the caller's own
  ID: every scanned ID is tracked, every ID of \<open>B\<close> that was not scanned is
  gone, and the caller's own ID is neither added nor removed.
\<close>

definition reconciled :: "int \<Rightarrow> int set \<Rightarrow> int set \<Rightarrow> int set \<Rightarrow> bool" where
  "reconciled our_pid B S K =
     ((\<forall>pid \<in> S. pid \<noteq> our_pid \<longrightarrow> pid \<in> K) \<and>
      (\<forall>pid \<in> B - S. pid \<noteq> our_pid \<longrightarrow> pid \<notin> K) \<and>
      (our_pid \<in> K \<longleftrightarrow> our_pid \<in> B))"

text \<open>
  A container that tracks process 100, with a handle, a name and a thread,
  and process 300.
\<close>

definition container_demo :: container where
  "container_demo =
     \<lparr>processDict =
        [(100, \<lparr>oid = 0, dwProcessId = 100, hProcess = HObj \<lparr>hvalue = 7, dwAccess = 0x400\<rparr>,
                 fileName = Some ''a.exe'', threads = [101], modules = [0x400000], Process_wow64 = None\<rparr>),
         (300, \<lparr>oid = 1, dwProcessId = 300, hProcess = HNone, fileName = None,
                 threads = [], modules = [], Process_wow64 = None\<rparr>)],
      next_oid = 2, clog = []\<rparr>"

section \<open>Which per-process steps of a scan failed\<close>

text \<open>
  Whether the call \<open>ev\<close>, made when the log was \<open>pre\<close>, is a per-process step
  that failed: a thread scan or a module scan that raised, or a filename
  completion that produced no name.
\<close>

fun step_failed :: "win32 \<Rightarrow> event list \<Rightarrow> event \<Rightarrow> bool" where
  "step_failed os pre (Call_scan_threads pid) =
     (case scan_threads os pre pid of Inl err \<Rightarrow> True | Inr tids \<Rightarrow> False)"
| "step_failed os pre (Call_scan_modules pid) =
     (case scan_modules_of os pre pid of Inl err \<Rightarrow> True | Inr bases \<Rightarrow> False)"
| "step_failed os pre (Call_get_image_name pid) =
     (case get_image_name os pre pid of Inl e \<Rightarrow> True | Inr new_name \<Rightarrow> \<not> truthy new_name)"
| "step_failed os pre ev = False"

fun any_failed :: "win32 \<Rightarrow> event list \<Rightarrow> event list \<Rightarrow> bool" where
  "any_failed os pre [] = False"
| "any_failed os pre (ev # evs) = (step_failed os pre ev \<or> any_failed os (pre @ [ev]) evs)"

fun per_process_step :: "event \<Rightarrow> bool" where
  "per_process_step (Call_scan_threads pid) = True"
| "per_process_step (Call_scan_modules pid) = True"
| "per_process_step (Call_get_image_name pid) = True"
| "per_process_step ev = False"


section \<open>A captured region of two pages\<close>

text \<open>
  A captured region of two committed pages at \<open>0x14000\<close> to which no access is
  allowed (so that it has no content to write back), where the concrete OS
  has free space of twelve pages.
\<close>

definition noaccess_pages :: MemoryBasicInformation where
  "noaccess_pages = demo_region 0x14000 0x2000 0x1000 1 0x20000"

text \<open>
  The concrete OS with a Toolhelp source that also lists process 200, which
  the session source does not list.
\<close>

definition os_session_short :: win32 where
  "os_session_short = os_demo\<lparr>CreateToolhelp32Snapshot :=
     (\<lambda>evs. Inr ([(1, Some ''self.exe''), (100, Some ''a.exe''), (200, Some ''b.exe'')],
                [(11, 1), (101, 100), (201, 200)]))\<rparr>"


section \<open>Basic facts about the log and the handle\<close>

lemma log_emit [simp]: "log (emit ev s) = log s @ [ev]" "self (emit ev s) = self s"
  by (simp_all add: emit_def)

lemma set_hProcess_simps [simp]:
  "log (set_hProcess h s) = log s" "hProcess (self (set_hProcess h s)) = h"
  by (simp_all add: set_hProcess_def)

lemma events_since_append [simp]: "log s' = log s @ evs \<Longrightarrow> events_since s s' = evs"
  by (simp add: events_since_def)

lemma rights_bits: "((A::int) OR R) = A \<longleftrightarrow> (\<forall>n. bit R n \<longrightarrow> bit A n)"
  by (auto simp add: bit_eq_iff bit_or_iff)

lemma or_absorb_merge: "((a::int) OR A) = a \<Longrightarrow> (a OR (R OR A)) = (a OR R)"
  by (metis or.assoc or.commute)

lemma get_handle_reuse:
  "holds_rights s R \<Longrightarrow> get_handle os R s = (Inr (hProcess (self s)), s)"
  by (simp add: holds_rights_def get_handle_def split: hproc.splits)

lemma open_handle_ok:
  "open_handle os A s = (Inr u, s') \<Longrightarrow>
     (\<exists>hv. hProcess (self s') = HObj \<lparr>hvalue = hv, dwAccess = A\<rparr>)"
  by (auto simp add: open_handle_def Let_def split: sum.splits prod.splits)

lemma open_handle_fail:
  "open_handle os A s = (Inl e, s') \<Longrightarrow> self s' = self s"
  by (auto simp add: open_handle_def Let_def split: sum.splits prod.splits)

lemma get_handle_ok:
  assumes "get_handle os R s = (Inr h, s')"
  shows "h = hProcess (self s')" and "holds_rights s' R"
    and "holds_rights s A \<Longrightarrow> holds_rights s' A"
  using assms
  by (auto simp add: get_handle_def holds_rights_def or_absorb_merge or.assoc
      split: hproc.splits if_splits prod.splits sum.splits dest!: open_handle_ok)

lemma get_handle_fail:
  "get_handle os R s = (Inl e, s') \<Longrightarrow> self s' = self s"
  by (auto simp add: get_handle_def split: hproc.splits if_splits prod.splits sum.splits
      dest: open_handle_fail)

lemma get_handle_keeps:
  "holds_rights s A \<Longrightarrow> holds_rights (snd (get_handle os R s)) A"
proof (cases "get_handle os R s")
  case (Pair r s')
  assume h: "holds_rights s A"
  show ?thesis
  proof (cases r)
    case (Inl e)
    with Pair have "self s' = self s" by (auto dest: get_handle_fail)
    with h Pair show ?thesis by (simp add: holds_rights_def)
  next
    case (Inr hd)
    with Pair h show ?thesis by (auto dest: get_handle_ok(3))
  qed
qed

lemma get_handle_calls_keeps:
  "holds_rights s A \<Longrightarrow> holds_rights (get_handle_calls os Rs s) A"
  by (induction Rs arbitrary: s) (auto intro: get_handle_keeps)

lemma granted_held:
  "R' \<in> set (granted os Rs s) \<Longrightarrow> holds_rights (get_handle_calls os Rs s) R'"
proof (induction Rs arbitrary: s)
  case Nil
  then show ?case by simp
next
  case (Cons R Rs)
  obtain r s' where g: "get_handle os R s = (r, s')" by (cases "get_handle os R s")
  show ?case
  proof (cases r)
    case (Inl e)
    with Cons g show ?thesis by simp
  next
    case (Inr h)
    with Cons.prems g have "R' = R \<or> R' \<in> set (granted os Rs s')" by simp
    then show ?thesis
    proof
      assume "R' = R"
      with g Inr have "holds_rights s' R'" by (auto dest: get_handle_ok(2))
      then show ?thesis using g by (simp add: get_handle_calls_keeps)
    next
      assume "R' \<in> set (granted os Rs s')"
      then show ?thesis using Cons.IH g by simp
    qed
  qed
qed

lemma open_handle_log:
  "open_handle os A s = (r, s') \<Longrightarrow>
     log s' = log s @ Call_OpenProcess A (dwProcessId (self s)) #
       (case r of Inl e \<Rightarrow> []
        | Inr u \<Rightarrow>
            (case hProcess (self s) of
               HObj h \<Rightarrow> Call_CloseHandle (hvalue h) #
                 (case CloseHandle os (log s @ [Call_OpenProcess A (dwProcessId (self s))]) (hvalue h) of
                    Inl e \<Rightarrow> [Warn] | Inr u \<Rightarrow> [])
             | HInvalid \<Rightarrow> [] | HNone \<Rightarrow> []))"
  by (auto simp add: open_handle_def close_handle_def Let_def
      split: sum.splits prod.splits hproc.splits)

lemma get_handle_open_log:
  assumes "\<not> holds_rights s R" and "get_handle os R s = (r, s')"
  shows "\<exists>evs. log s' = log s @ Call_OpenProcess (merged_rights s R) (dwProcessId (self s)) # evs \<and>
           \<not> list_ex is_open evs \<and>
           (list_ex is_close evs \<longleftrightarrow> (\<exists>u. r = Inr u) \<and> (\<exists>h. hProcess (self s) = HObj h))"
  using assms
  by (auto simp add: get_handle_def holds_rights_def merged_rights_def
      split: hproc.splits if_splits prod.splits sum.splits dest!: open_handle_log)

lemmas demo_defs = os_demo_def proc_demo_def get_handle_def open_handle_def close_handle_def
  emit_def set_hProcess_def Let_def

section \<open>Which calls a computation can make\<close>

lemma emits_mono:
  assumes "emits K m" and "K \<subseteq> K'"
  shows "emits K' m"
  unfolding emits_def
proof
  fix s
  from assms(1) obtain evs where "log (snd (m s)) = log s @ evs" "kind_of ` set evs \<subseteq> K"
    unfolding emits_def by blast
  with assms(2) show "\<exists>evs. log (snd (m s)) = log s @ evs \<and> kind_of ` set evs \<subseteq> K'"
    by (intro exI [of _ evs]) auto
qed





lemma emits_case_option:
  assumes "emits K f" and "\<And>x. emits K (g x)"
  shows "emits K (\<lambda>s. case r of None \<Rightarrow> f s | Some x \<Rightarrow> g x s)"
  using assms by (cases r) simp_all

lemma emits_if:
  assumes "emits K a" and "emits K b"
  shows "emits K (\<lambda>s. if c s then a s else b s)"
  unfolding emits_def
proof
  fix s
  show "\<exists>evs. log (snd (if c s then a s else b s)) = log s @ evs \<and> kind_of ` set evs \<subseteq> K"
    using assms(1) [unfolded emits_def, rule_format, of s] assms(2) [unfolded emits_def, rule_format, of s]
    by (cases "c s") simp_all
qed




lemma emits_emit: "kind_of ev \<in> K \<Longrightarrow> emits K (\<lambda>s. (x, emit ev s))"
  by (simp add: emits_def)

lemma emits_close_handle: "K_handle \<in> K \<Longrightarrow> emits K (close_handle os)"
  by (auto simp add: emits_def close_handle_def split: hproc.splits sum.splits)















section \<open>Unfolding rules for the concrete runs of the restore\<close>

lemmas state_consts = MEM_FREE_def MEM_RESERVE_def MEM_COMMIT_def

lemmas page_defs = free_page_def rw_page_def ro_page_def demo_region_def hp_demo_def held_demo_def
lemmas restore_defs = restore_state_def restore_alloc_def restore_free_def restore_permissions_def
  then_do_def os_call_def is_free_def is_reserved_def is_commited_def state_consts
  MEM_RELEASE_def MEM_DECOMMIT_def

section \<open>The calls of the snapshot restore\<close>






















lemmas run_defs = restore_memory_snapshot_def suspend_def resume_def scan_threads_of_def
  restore_region_def mquery_def restore_mbi_def restore_mbi_try_def restore_data_def
  get_handle_def then_do_def os_call_def emit_def

lemmas access_consts = PROCESS_VM_OPERATION_def PROCESS_VM_READ_def PROCESS_VM_WRITE_def
  PROCESS_QUERY_INFORMATION_def PROCESS_SUSPEND_RESUME_def

lemma demo_query_page: "demo_query 0x10000 = Inr (demo_region 0x10000 0x1000 0x1000 4 0x20000)"
  by (simp add: demo_query_def)


section \<open>The walk over the memory map\<close>

declare iter_memory_map_loop.simps [simp del]

lemma mquery_answer:
  assumes "mquery os a s = (Inr m, s1)"
  shows "\<exists>evs h. VirtualQueryEx os evs h a = Inr m"
  using assms
  by (auto simp add: mquery_def then_do_def os_call_def split: prod.splits sum.splits)

lemma loop_step:
  assumes "prev < cur" and "cur < maxA" and "mquery os cur s = (Inr m, s1)"
    and "iter_memory_map_loop os prev cur maxA s = ((mbis, r), s')"
  shows "\<exists>rest. mbis = m # rest \<and>
           iter_memory_map_loop os cur (BaseAddress m + RegionSize m) maxA s1 = ((rest, r), s')"
  using assms
  by (subst (asm) iter_memory_map_loop.simps) (auto split: prod.splits)

lemma loop_stop:
  assumes "\<not> (prev < cur \<and> cur < maxA)"
    and "iter_memory_map_loop os prev cur maxA s = ((mbis, r), s')"
  shows "mbis = [] \<and> r = None \<and> s' = s"
  using assms by (subst (asm) iter_memory_map_loop.simps) auto

lemma loop_error:
  assumes "prev < cur" and "cur < maxA" and "mquery os cur s = (Inl e, s1)"
    and "iter_memory_map_loop os prev cur maxA s = ((mbis, r), s')"
  shows "mbis = [] \<and> s' = s1 \<and>
         r = (if e = WindowsError ERROR_INVALID_PARAMETER then None else Some e)"
  using assms by (subst (asm) iter_memory_map_loop.simps) (auto split: if_splits)

lemma loop_tiles:
  "page_granular os \<Longrightarrow> cur mod pageSize = 0 \<Longrightarrow>
         iter_memory_map_loop os prev cur maxA s = ((mbis, r), s') \<Longrightarrow>
         contiguous mbis \<and> (\<forall>m \<in> set mbis. 0 < RegionSize m \<and> BaseAddress m < maxA) \<and>
         (mbis \<noteq> [] \<longrightarrow> BaseAddress (hd mbis) = cur) \<and>
         r \<noteq> Some (WindowsError ERROR_INVALID_PARAMETER)"
proof (induction os prev cur maxA s arbitrary: mbis r s' rule: iter_memory_map_loop.induct)
  case (1 os prev cur maxA s)
  show ?case
  proof (cases "prev < cur \<and> cur < maxA")
    case False
    from loop_stop [OF False "1.prems"(3)] show ?thesis by simp
  next
    case True
    obtain q s1 where q: "mquery os cur s = (q, s1)" by (cases "mquery os cur s")
    show ?thesis
    proof (cases q)
      case (Inl e)
      from loop_error [OF _ _ q [unfolded Inl] "1.prems"(3)] True show ?thesis by auto
    next
      case (Inr m)
      from loop_step [OF _ _ q [unfolded Inr] "1.prems"(3)] True obtain rest where
        rest: "mbis = m # rest"
          "iter_memory_map_loop os cur (BaseAddress m + RegionSize m) maxA s1 = ((rest, r), s')"
        by auto
      from mquery_answer [OF q [unfolded Inr]] "1.prems"(1) [unfolded page_granular_def] "1.prems"(2)
      have m: "BaseAddress m = cur" "0 < RegionSize m" "RegionSize m mod pageSize = 0"
        by auto
      then have al: "(BaseAddress m + RegionSize m) mod pageSize = 0"
        using "1.prems"(2) by (simp add: mod_add_eq [symmetric] del: mod_add_eq)
      from "1.IH" [OF True q [symmetric] _ "1.prems"(1) al rest(2)] Inr
      have ih: "contiguous rest" "\<forall>m \<in> set rest. 0 < RegionSize m \<and> BaseAddress m < maxA"
        "rest \<noteq> [] \<longrightarrow> BaseAddress (hd rest) = BaseAddress m + RegionSize m"
        "r \<noteq> Some (WindowsError ERROR_INVALID_PARAMETER)"
        by auto
      have "contiguous (m # rest)"
        using ih(1,3) by (cases rest) (simp_all add: region_end_def)
      with rest(1) m ih True show ?thesis by simp
    qed
  qed
qed

lemma loop_end:
  "page_granular os \<Longrightarrow> cur mod pageSize = 0 \<Longrightarrow> prev < cur \<Longrightarrow> cur < maxA \<Longrightarrow>
     iter_memory_map_loop os prev cur maxA s = ((mbis, r), s') \<Longrightarrow>
     (case r of
        None \<Rightarrow> (mbis \<noteq> [] \<and> maxA \<le> region_end (last mbis)) \<or>
                (\<exists>s0. mquery os (walk_cursor cur mbis) s0 =
                        (Inl (WindowsError ERROR_INVALID_PARAMETER), s'))
      | Some e \<Rightarrow> \<exists>s0. mquery os (walk_cursor cur mbis) s0 = (Inl e, s'))"
proof (induction os prev cur maxA s arbitrary: mbis r s' rule: iter_memory_map_loop.induct)
  case (1 os prev cur maxA s)
  have T: "prev < cur \<and> cur < maxA" using "1.prems"(3,4) by simp
  obtain q s1 where q: "mquery os cur s = (q, s1)" by (cases "mquery os cur s")
  show ?case
  proof (cases q)
    case (Inl e)
    from loop_error [OF "1.prems"(3,4) q [unfolded Inl] "1.prems"(5)]
    have "mbis = []" "s' = s1" "r = (if e = WindowsError ERROR_INVALID_PARAMETER then None else Some e)"
      by simp_all
    with q Inl show ?thesis
      by (auto simp add: walk_cursor_def intro: exI [of _ s])
  next
    case (Inr m)
    from loop_step [OF "1.prems"(3,4) q [unfolded Inr] "1.prems"(5)] obtain rest where
      rest: "mbis = m # rest"
        "iter_memory_map_loop os cur (BaseAddress m + RegionSize m) maxA s1 = ((rest, r), s')"
      by auto
    from mquery_answer [OF q [unfolded Inr]] "1.prems"(1) [unfolded page_granular_def] "1.prems"(2)
    have m: "BaseAddress m = cur" "0 < RegionSize m" "RegionSize m mod pageSize = 0"
      by auto
    then have al: "(BaseAddress m + RegionSize m) mod pageSize = 0"
      using "1.prems"(2) by (simp add: mod_add_eq [symmetric] del: mod_add_eq)
    have lt: "cur < BaseAddress m + RegionSize m" using m by simp
    show ?thesis
    proof (cases "BaseAddress m + RegionSize m < maxA")
      case True
      from "1.IH" [OF T q [symmetric] _ "1.prems"(1) al lt True rest(2)] Inr
      have ih: "(case r of
        None \<Rightarrow> (rest \<noteq> [] \<and> maxA \<le> region_end (last rest)) \<or>
                (\<exists>s0. mquery os (walk_cursor (BaseAddress m + RegionSize m) rest) s0 =
                        (Inl (WindowsError ERROR_INVALID_PARAMETER), s'))
      | Some e \<Rightarrow> \<exists>s0. mquery os (walk_cursor (BaseAddress m + RegionSize m) rest) s0 = (Inl e, s'))"
        by simp
      have wc: "walk_cursor cur (m # rest) = walk_cursor (BaseAddress m + RegionSize m) rest"
        by (simp add: walk_cursor_def region_end_def)
      have la: "rest \<noteq> [] \<Longrightarrow> last (m # rest) = last rest" by simp
      show ?thesis
        unfolding rest(1) wc using ih la by (cases r) auto
    next
      case False
      then have "\<not> (cur < BaseAddress m + RegionSize m \<and> BaseAddress m + RegionSize m < maxA)" by simp
      from loop_stop [OF this rest(2)] have "rest = []" "r = None" by simp_all
      with rest(1) False show ?thesis by (simp add: region_end_def)
    qed
  qed
qed

lemma demo_page_granular: "page_granular os_demo"
proof -
  have "BaseAddress m = a - a mod 0x1000 \<and> 0 < RegionSize m \<and> RegionSize m mod 0x1000 = 0"
    if q: "demo_query a = Inr m" for a m
  proof -
    define k where "k = a div 0x1000"
    have b: "a - a mod 0x1000 = 0x1000 * k"
      unfolding k_def by (simp add: minus_mod_eq_mult_div)
    have bounds: "0x1000 * k \<le> a" "a < 0x1000 * k + 0x1000"
      using b pos_mod_bound [of "0x1000" a] pos_mod_sign [of "0x1000" a] by linarith+
    have s1: "(0x10000 - 0x1000 * k) mod 0x1000 = 0"
    proof -
      have "(0x10000 :: int) - 0x1000 * k = 0x1000 * (16 - k)" by simp
      then show ?thesis by (metis mod_mult_self1_is_0)
    qed
    have s2: "(0x20000 - 0x1000 * k) mod 0x1000 = 0"
    proof -
      have "(0x20000 :: int) - 0x1000 * k = 0x1000 * (32 - k)" by simp
      then show ?thesis by (metis mod_mult_self1_is_0)
    qed
    have range: "\<not> a < 0" "a < 0x20000" using q by (auto simp add: demo_query_def Let_def split: if_splits)
    consider "a < 0x10000" | "0x10000 \<le> a" "a < 0x11000" | "0x11000 \<le> a" "a < 0x12000" | "0x12000 \<le> a"
      by linarith
    then show ?thesis
    proof cases
      case 1
      with q range have m: "m = demo_region (0x1000 * k) (0x10000 - 0x1000 * k) 0x10000 1 0"
        by (simp add: demo_query_def Let_def b)
      show ?thesis unfolding m b using bounds 1 s1 by (simp add: demo_region_def)
    next
      case 2
      with q range have m: "m = demo_region 0x10000 0x1000 0x1000 4 0x20000"
        by (simp add: demo_query_def Let_def)
      from 2 bounds have "k = 16" by linarith
      then show ?thesis unfolding m b by (simp add: demo_region_def)
    next
      case 3
      with q range have m: "m = demo_region 0x11000 0x1000 0x1000 0x104 0x20000"
        by (simp add: demo_query_def Let_def)
      from 3 bounds have "k = 17" by linarith
      then show ?thesis unfolding m b by (simp add: demo_region_def)
    next
      case 4
      with q range have m: "m = demo_region (0x1000 * k) (0x20000 - 0x1000 * k) 0x10000 1 0"
        by (simp add: demo_query_def Let_def b)
      show ?thesis unfolding m b using bounds range s2 by (simp add: demo_region_def)
    qed
  qed
  then show ?thesis
    by (simp add: page_granular_def os_demo_def pageSize_def)
qed

lemma demo_walk:
  "iter_memory_map os_demo (Some 0x10800) (Some 0x11800) held_demo =
     (([demo_region 0x10000 0x1000 0x1000 4 0x20000, demo_region 0x11000 0x1000 0x1000 0x104 0x20000], None),
      held_demo\<lparr>log := [Call_VirtualQueryEx hp_demo 0x10000, Call_VirtualQueryEx hp_demo 0x11000]\<rparr>)"
  by (simp add: iter_memory_map_def iter_memory_map_loop.simps mquery_def get_handle_def then_do_def
      os_call_def emit_def os_demo_def demo_align_def demo_query_def demo_region_def Let_def
      page_defs access_consts)

lemma demo_walk_top:
  "iter_memory_map os_demo (Some 0x1F000) (Some 0x30000) held_demo =
     (([demo_region 0x1F000 0x1000 0x10000 1 0], None),
      held_demo\<lparr>log := [Call_VirtualQueryEx hp_demo 0x1F000, Call_VirtualQueryEx hp_demo 0x20000]\<rparr>)"
  by (simp add: iter_memory_map_def iter_memory_map_loop.simps mquery_def get_handle_def then_do_def
      os_call_def emit_def os_demo_def demo_align_def demo_query_def demo_region_def Let_def
      page_defs access_consts ERROR_INVALID_PARAMETER_def)

section \<open>Reading with \<^verbatim>\<open>peek\<close>\<close>

lemma os_call_windows: "os_call ev f s = (Inl e, s') \<Longrightarrow> \<exists>c. e = WindowsError c"
  by (auto simp add: os_call_def split: sum.splits)

lemma get_handle_windows: "get_handle os R s = (Inl e, s') \<Longrightarrow> \<exists>c. e = WindowsError c"
  by (auto simp add: get_handle_def open_handle_def Let_def
      split: hproc.splits if_splits sum.splits prod.splits)

lemma mquery_windows: "mquery os a s = (Inl e, s') \<Longrightarrow> \<exists>c. e = WindowsError c"
  by (auto simp add: mquery_def then_do_def split: prod.splits sum.splits
      dest: get_handle_windows os_call_windows)

lemma loop_windows:
  "iter_memory_map_loop os prev cur maxA s = ((mbis, Some e), s') \<Longrightarrow> \<exists>c. e = WindowsError c"
proof (induction os prev cur maxA s arbitrary: mbis s' rule: iter_memory_map_loop.induct)
  case (1 os prev cur maxA s)
  show ?case
  proof (cases "prev < cur \<and> cur < maxA")
    case False
    from loop_stop [OF False "1.prems"] show ?thesis by simp
  next
    case True
    obtain q s1 where q: "mquery os cur s = (q, s1)" by (cases "mquery os cur s")
    show ?thesis
    proof (cases q)
      case (Inl x)
      from loop_error [OF _ _ q [unfolded Inl] "1.prems"] True mquery_windows [OF q [unfolded Inl]]
      show ?thesis by (auto split: if_splits)
    next
      case (Inr m)
      from loop_step [OF _ _ q [unfolded Inr] "1.prems"] True obtain rest where
        "iter_memory_map_loop os cur (BaseAddress m + RegionSize m) maxA s1 = ((rest, Some e), s')"
        by auto
      from "1.IH" [OF True q [symmetric] _ this] Inr show ?thesis by simp
    qed
  qed
qed

lemma get_memory_map_windows:
  "get_memory_map os minAddr maxAddr s = (Inl e, s') \<Longrightarrow> \<exists>c. e = WindowsError c"
  by (auto simp add: get_memory_map_def iter_memory_map_def split: prod.splits option.splits
      dest: loop_windows)

lemma peek_body_windows:
  "peek_body os a n s = (Inl e, s') \<Longrightarrow> \<exists>c. e = WindowsError c"
  by (auto simp add: peek_body_def then_do_def split: prod.splits sum.splits if_splits
      dest: get_handle_windows get_memory_map_windows os_call_windows)

lemma peek_size_find:
  "peek_size os a n mbis =
     (case find (\<lambda>m. \<not> is_readable os m) mbis of None \<Rightarrow> n | Some m \<Rightarrow> BaseAddress m - a)"
  by (induction mbis) simp_all

lemma peek_demo_handle:
  "get_handle os_demo (PROCESS_VM_READ OR PROCESS_QUERY_INFORMATION) held_demo =
     (Inr peek_handle,
      \<lparr>self = (self held_demo)\<lparr>hProcess := peek_handle\<rparr>,
       log = [Call_OpenProcess 0xC38 1234, Call_CloseHandle 7]\<rparr>)"
  by (simp add: get_handle_def open_handle_def close_handle_def set_hProcess_def emit_def Let_def
      os_demo_def held_demo_def access_consts peek_handle_def)

lemma peek_demo_map:
  "get_memory_map os_demo (Some 0x10FF0) (Some (0x10FF0 + 0x20))
      \<lparr>self = (self held_demo)\<lparr>hProcess := peek_handle\<rparr>,
       log = [Call_OpenProcess 0xC38 1234, Call_CloseHandle 7]\<rparr> =
     (Inr [demo_region 0x10000 0x1000 0x1000 4 0x20000, guard_page],
      \<lparr>self = (self held_demo)\<lparr>hProcess := peek_handle\<rparr>,
       log = [Call_OpenProcess 0xC38 1234, Call_CloseHandle 7,
              Call_VirtualQueryEx peek_handle 0x10000, Call_VirtualQueryEx peek_handle 0x11000]\<rparr>)"
  by (simp add: get_memory_map_def iter_memory_map_def iter_memory_map_loop.simps mquery_def
      get_handle_def then_do_def os_call_def emit_def os_demo_def demo_align_def demo_query_def
      demo_region_def Let_def held_demo_def access_consts peek_handle_def guard_page_def)

lemma peek_demo_run:
  "peek os_demo 0x10FF0 0x20 held_demo =
     (Inr (replicate 16 0),
      \<lparr>self = (self held_demo)\<lparr>hProcess := peek_handle\<rparr>,
       log = [Call_OpenProcess 0xC38 1234, Call_CloseHandle 7,
              Call_VirtualQueryEx peek_handle 0x10000, Call_VirtualQueryEx peek_handle 0x11000,
              Call_ReadProcessMemory peek_handle 0x10FF0 0x10]\<rparr>)"
proof -
  have "peek_size os_demo 0x10FF0 0x20 [demo_region 0x10000 0x1000 0x1000 4 0x20000, guard_page] = 0x10"
    by (simp add: os_demo_def demo_region_def guard_page_def)
  moreover have "ReadProcessMemory os_demo evs h a 0x10 = Inr (replicate 16 0)" for evs h a
    by (simp add: os_demo_def)
  ultimately show ?thesis
    using peek_demo_handle peek_demo_map
    by (simp add: peek_def peek_body_def then_do_def os_call_def emit_def)
qed

section \<open>The dictionary of the container\<close>

lemma cemit_simps [simp]:
  "processDict (cemit ev c) = processDict c" "clog (cemit ev c) = clog c @ [ev]"
  "keys (cemit ev c) = keys c" "next_oid (cemit ev c) = next_oid c"
  by (simp_all add: cemit_def keys_def)

lemma map_of_add_new_process:
  "q \<noteq> pid \<Longrightarrow> map_of (processDict (add_new_process pid fn c)) q = map_of (processDict c) q"
  by (simp add: add_new_process_def new_Process_def add_process_def update_conv')

lemma keys_add_new_process:
  "set (keys (add_new_process pid fn c)) = insert pid (set (keys c))"
  by (auto simp add: add_new_process_def new_Process_def add_process_def keys_def update_keys)

lemma clog_add_new_process [simp]: "clog (add_new_process pid fn c) = clog c"
  by (simp add: add_new_process_def new_Process_def add_process_def)

lemma map_of_fold_add:
  "q \<notin> set pids \<Longrightarrow>
     map_of (processDict (fold (\<lambda>pid. add_new_process pid fn) pids c)) q = map_of (processDict c) q"
  by (induction pids arbitrary: c) (simp_all add: map_of_add_new_process)

lemma keys_fold_add:
  "set (keys (fold (\<lambda>pid. add_new_process pid fn) pids c)) = set pids \<union> set (keys c)"
  by (induction pids arbitrary: c) (auto simp add: keys_add_new_process)

lemma clog_fold_add [simp]: "clog (fold (\<lambda>pid. add_new_process pid fn) pids c) = clog c"
  by (induction pids arbitrary: c) simp_all

lemma del_process_map_of:
  assumes "del_process os pid c = (r, c')"
  shows "map_of (processDict c') q = (if q = pid then None else map_of (processDict c) q)"
  using assms
  by (auto simp add: del_process_def delete_conv' split: option.splits prod.splits)

lemma keys_delete: "set (map fst (AList.delete k al)) = set (map fst al) - {k}"
  by (simp only: delete_keys set_removeAll)

lemma del_process_keys:
  assumes "del_process os pid c = (r, c')"
  shows "set (keys c') = set (keys c) - {pid}"
proof (cases "map_of (processDict c) pid")
  case None
  then have "pid \<notin> set (keys c)"
    by (simp add: keys_def map_of_eq_None_iff)
  moreover from assms None have "c' = cemit Warn c" by (simp add: del_process_def)
  ultimately show ?thesis by simp
next
  case (Some aProcess)
  with assms have "processDict c' = AList.delete pid (processDict c)"
    by (auto simp add: del_process_def split: prod.splits)
  then show ?thesis unfolding keys_def by (simp only: keys_delete)
qed

lemma del_processes_map_of:
  "del_processes os pids c = (r, c') \<Longrightarrow> map_of (processDict c') q = Some p \<Longrightarrow>
     map_of (processDict c) q = Some p"
proof (induction pids arbitrary: c)
  case Nil
  then show ?case by simp
next
  case (Cons pid pids)
  obtain r1 c1 where d: "del_process os pid c = (r1, c1)" by (cases "del_process os pid c")
  note m = del_process_map_of [OF d, of q]
  show ?case
  proof (cases r1)
    case (Inl e)
    with Cons.prems d have "c' = c1" by simp
    with m Cons.prems(2) show ?thesis by (simp split: if_splits)
  next
    case (Inr u)
    with Cons.prems d have "del_processes os pids c1 = (r, c')" by simp
    from Cons.IH [OF this Cons.prems(2)] m show ?thesis by (simp split: if_splits)
  qed
qed

lemma del_processes_keys:
  "del_processes os pids c = (Inr u, c') \<Longrightarrow> set (keys c') = set (keys c) - set pids"
proof (induction pids arbitrary: c)
  case Nil
  then show ?case by simp
next
  case (Cons pid pids)
  obtain r1 c1 where d: "del_process os pid c = (r1, c1)" by (cases "del_process os pid c")
  show ?case
  proof (cases r1)
    case (Inl e)
    with Cons.prems d show ?thesis by simp
  next
    case (Inr v)
    with Cons.prems d have "del_processes os pids c1 = (Inr u, c')" by simp
    from Cons.IH [OF this] del_process_keys [OF d] show ?thesis by auto
  qed
qed

lemmas container_defs = scan_processes_fast_def del_process_def clear_def close_handle_def
  add_new_process_def new_Process_def add_process_def keys_def cemit_def set_hProcess_def
  emit_def Let_def

lemma fast_demo_run:
  "scan_processes_fast os_demo container_demo =
     (Inr (),
      \<lparr>processDict =
        [(100, \<lparr>oid = 0, dwProcessId = 100, hProcess = HObj \<lparr>hvalue = 7, dwAccess = 0x400\<rparr>,
                 fileName = Some ''a.exe'', threads = [101], modules = [0x400000], Process_wow64 = None\<rparr>),
         (200, \<lparr>oid = 2, dwProcessId = 200, hProcess = HNone, fileName = None,
                 threads = [], modules = [], Process_wow64 = None\<rparr>)],
       next_oid = 3, clog = [Call_EnumProcesses]\<rparr>)"
  by (simp add: container_defs os_demo_def container_demo_def)

lemma keys_update_present:
  "map_of al k = Some v \<Longrightarrow> set (map fst (AList.update k v' al)) = set (map fst al)"
proof -
  assume "map_of al k = Some v"
  then have "k \<in> set (map fst al)" by (auto dest: map_of_SomeD intro: rev_image_eqI)
  then show ?thesis by (simp only: update_keys if_True)
qed

lemma keys_fill_fileName [simp]: "set (keys (fill_fileName pid fn c)) = set (keys c)"
  unfolding fill_fileName_def keys_def
  by (cases "map_of (processDict c) pid") (simp_all add: keys_update_present del: set_map)

lemma keys_add_thread [simp]: "set (keys (add_thread pid tid c)) = set (keys c)"
  unfolding add_thread_def keys_def
  by (cases "map_of (processDict c) pid") (simp_all add: keys_update_present del: set_map)

lemma keys_del_dead_threads [simp]: "keys (del_dead_threads tids c) = keys c"
  by (simp add: del_dead_threads_def keys_def case_prod_beta comp_def)

lemma scan_process_entries_keys:
  "scan_process_entries our pes (dead, c) = (dead', c') \<Longrightarrow>
     set (keys c') = set (keys c) \<union> (fst ` set pes - {our}) \<and>
     set dead' = set dead - (fst ` set pes - {our})"
proof (induction pes arbitrary: dead c)
  case Nil
  then show ?case by simp
next
  case (Cons pe pes)
  obtain pid fn where pe: "pe = (pid, fn)" by (cases pe)
  show ?case
  proof (cases "pid = our")
    case True
    with Cons.prems pe have "scan_process_entries our pes (dead, c) = (dead', c')" by simp
    from Cons.IH [OF this] pe True show ?thesis by auto
  next
    case False
    let ?c1 = "if pid \<notin> set (keys c) then add_new_process pid fn c else fill_fileName pid fn c"
    from Cons.prems pe False have "scan_process_entries our pes (removeAll pid dead, ?c1) = (dead', c')"
      by simp
    from Cons.IH [OF this] have ih: "set (keys c') = set (keys ?c1) \<union> (fst ` set pes - {our})"
      "set dead' = set (removeAll pid dead) - (fst ` set pes - {our})" by simp_all
    have k1: "set (keys ?c1) = insert pid (set (keys c))"
      by (auto simp add: keys_add_new_process)
    show ?thesis using ih k1 pe False by auto
  qed
qed

lemma scan_thread_entries_keys:
  "scan_thread_entries our tes (dead, found, c) = (dead', found', c') \<Longrightarrow>
     set (keys c') = set (keys c) \<union> (snd ` set tes - {our}) \<and>
     set dead' = set dead - (snd ` set tes - {our})"
proof (induction tes arbitrary: dead found c)
  case Nil
  then show ?case by simp
next
  case (Cons te tes)
  obtain tid pid where te: "te = (tid, pid)" by (cases te)
  show ?case
  proof (cases "pid = our")
    case True
    with Cons.prems te have "scan_thread_entries our tes (dead, found, c) = (dead', found', c')" by simp
    from Cons.IH [OF this] te True show ?thesis by auto
  next
    case False
    let ?c1 = "add_thread pid tid (if pid \<in> set (keys c) then c else add_new_process pid None c)"
    from Cons.prems te False
    have "scan_thread_entries our tes (removeAll pid dead, tid # found, ?c1) = (dead', found', c')"
      by simp
    from Cons.IH [OF this] have ih: "set (keys c') = set (keys ?c1) \<union> (snd ` set tes - {our})"
      "set dead' = set (removeAll pid dead) - (snd ` set tes - {our})" by simp_all
    have k1: "set (keys ?c1) = insert pid (set (keys c))"
      by (auto simp add: keys_add_new_process)
    show ?thesis using ih k1 te False by auto
  qed
qed

lemma reconciledI:
  "K = (S - {our}) \<union> (B \<inter> {our}) \<Longrightarrow> reconciled our B S K"
  by (auto simp add: reconciled_def)

lemma scan_processes_fast_keys:
  assumes "EnumProcesses os (clog c) = Inr pids" and "scan_processes_fast os c = (Inr (), c')"
  shows "set (keys c') = (set pids - {GetCurrentProcessId os}) \<union> (set (keys c) \<inter> {GetCurrentProcessId os})"
proof -
  let ?our = "GetCurrentProcessId os"
  let ?c0 = "cemit Call_EnumProcesses c"
  let ?new = "removeAll ?our (remdups pids)"
  let ?old = "removeAll ?our (keys ?c0)"
  let ?add = "filter (\<lambda>pid. pid \<notin> set ?old) ?new"
  let ?c1 = "fold (\<lambda>pid. add_new_process pid None) ?add ?c0"
  from assms have d: "del_processes os (filter (\<lambda>pid. pid \<notin> set ?new) ?old) ?c1 = (Inr (), c')"
    by (simp add: scan_processes_fast_def Let_def)
  from del_processes_keys [OF d] have "set (keys c') = set (keys ?c1) - set (filter (\<lambda>pid. pid \<notin> set ?new) ?old)" .
  then show ?thesis by (auto simp add: keys_fold_add)
qed

lemma scan_processes_and_threads_keys:
  assumes "CreateToolhelp32Snapshot os (clog c) = Inr (pes, tes)"
    and "scan_processes_and_threads os c = (Inr (), c')"
  shows "set (keys c') = ((fst ` set pes \<union> snd ` set tes) - {GetCurrentProcessId os}) \<union>
                         (set (keys c) \<inter> {GetCurrentProcessId os})"
proof -
  let ?our = "GetCurrentProcessId os"
  let ?c0 = "cemit Call_CreateToolhelp32Snapshot c"
  obtain d1 c1 where p: "scan_process_entries ?our pes (removeAll ?our (keys c), ?c0) = (d1, c1)"
    by (cases "scan_process_entries ?our pes (removeAll ?our (keys c), ?c0)")
  obtain d2 f2 c2 where t: "scan_thread_entries ?our tes (d1, [], c1) = (d2, f2, c2)"
    by (cases "scan_thread_entries ?our tes (d1, [], c1)") auto
  obtain r3 c3 where d: "del_processes os d2 c2 = (r3, c3)" by (cases "del_processes os d2 c2")
  from assms p t d have r3: "r3 = Inr ()" and c': "c' = del_dead_threads f2 c3"
    by (auto simp add: scan_processes_and_threads_def Let_def split: sum.splits)
  from scan_process_entries_keys [OF p] have k1: "set (keys c1) = set (keys c) \<union> (fst ` set pes - {?our})"
    "set d1 = set (removeAll ?our (keys c)) - (fst ` set pes - {?our})" by simp_all
  from scan_thread_entries_keys [OF t] have k2: "set (keys c2) = set (keys c1) \<union> (snd ` set tes - {?our})"
    "set d2 = set d1 - (snd ` set tes - {?our})" by simp_all
  from del_processes_keys [OF d [unfolded r3]] have k3: "set (keys c3) = set (keys c2) - set d2" .
  show ?thesis unfolding c' using k1 k2 k3 by auto
qed

lemma toolhelp_demo_run:
  "scan_processes_and_threads os_demo container_demo =
     (Inr (),
      \<lparr>processDict =
        [(100, \<lparr>oid = 0, dwProcessId = 100, hProcess = HObj \<lparr>hvalue = 7, dwAccess = 0x400\<rparr>,
                 fileName = Some ''a.exe'', threads = [101], modules = [0x400000], Process_wow64 = None\<rparr>)],
       next_oid = 2, clog = [Call_CreateToolhelp32Snapshot]\<rparr>)"
  by (simp add: scan_processes_and_threads_def container_defs fill_fileName_def add_thread_def
      del_dead_threads_def truthy_def os_demo_def container_demo_def)

section \<open>The log and the flags of a scan\<close>

lemma any_failed_append:
  "any_failed os pre (xs @ ys) = (any_failed os pre xs \<or> any_failed os (pre @ xs) ys)"
  by (induction xs arbitrary: pre) simp_all

lemma step_failed_other: "\<not> per_process_step ev \<Longrightarrow> \<not> step_failed os pre ev"
  by (cases ev) simp_all

lemma any_failed_other:
  "\<forall>ev \<in> set evs. \<not> per_process_step ev \<Longrightarrow> \<not> any_failed os pre evs"
  by (induction evs arbitrary: pre) (simp_all add: step_failed_other)

lemma del_process_clog:
  assumes "del_process os pid c = (r, c')"
  shows "\<exists>evs. clog c' = clog c @ evs \<and> (\<forall>ev \<in> set evs. \<not> per_process_step ev)"
proof (cases "map_of (processDict c) pid")
  case None
  with assms have "c' = cemit Warn c" by (simp add: del_process_def)
  then show ?thesis by simp
next
  case (Some p)
  have "\<exists>evs. log (snd (close_handle os s)) = log s @ evs \<and> (\<forall>ev \<in> set evs. \<not> per_process_step ev)" for s
    by (auto simp add: close_handle_def split: hproc.splits sum.splits)
  from this [of "\<lparr>self = p\<lparr>threads := [], modules := []\<rparr>, log = clog c\<rparr>"] assms Some
  show ?thesis
    by (auto simp add: del_process_def clear_def split: prod.splits)
qed

lemma del_processes_clog:
  "del_processes os pids c = (r, c') \<Longrightarrow>
     \<exists>evs. clog c' = clog c @ evs \<and> (\<forall>ev \<in> set evs. \<not> per_process_step ev)"
proof (induction pids arbitrary: c)
  case Nil
  then show ?case by simp
next
  case (Cons pid pids)
  obtain r1 c1 where d: "del_process os pid c = (r1, c1)" by (cases "del_process os pid c")
  from del_process_clog [OF d] obtain e1 where e1: "clog c1 = clog c @ e1" "\<forall>ev \<in> set e1. \<not> per_process_step ev"
    by blast
  show ?case
  proof (cases r1)
    case (Inl e)
    with Cons.prems d have "c' = c1" by simp
    with e1 show ?thesis by blast
  next
    case (Inr u)
    with Cons.prems d have "del_processes os pids c1 = (r, c')" by simp
    from Cons.IH [OF this] obtain e2 where "clog c' = clog c1 @ e2" "\<forall>ev \<in> set e2. \<not> per_process_step ev"
      by blast
    with e1 show ?thesis by (intro exI [of _ "e1 @ e2"]) auto
  qed
qed

lemma clog_fill_fileName [simp]: "clog (fill_fileName pid fn c) = clog c"
  by (simp add: fill_fileName_def split: option.splits)

lemma clog_add_thread [simp]: "clog (add_thread pid tid c) = clog c"
  by (simp add: add_thread_def split: option.splits)

lemma clog_del_dead_threads [simp]: "clog (del_dead_threads tids c) = clog c"
  by (simp add: del_dead_threads_def)

lemma scan_process_entries_clog:
  "scan_process_entries our pes (dead, c) = (dead', c') \<Longrightarrow> clog c' = clog c"
  by (induction pes arbitrary: dead c) (auto split: if_splits prod.splits)

lemma scan_thread_entries_clog:
  "scan_thread_entries our tes (dead, found, c) = (dead', found', c') \<Longrightarrow> clog c' = clog c"
  by (induction tes arbitrary: dead found c) (auto split: if_splits prod.splits)

lemma scan_processes_fast_clog:
  assumes "scan_processes_fast os c = (r, c')"
  shows "\<exists>evs. clog c' = clog c @ evs \<and> (\<forall>ev \<in> set evs. \<not> per_process_step ev)"
proof (cases "EnumProcesses os (clog c)")
  case (Inl err)
  with assms have "c' = cemit Call_EnumProcesses c" by (simp add: scan_processes_fast_def)
  then show ?thesis by simp
next
  case (Inr pids)
  with assms obtain dl c1 where d: "del_processes os dl c1 = (r, c')"
    and c1: "clog c1 = clog c @ [Call_EnumProcesses]"
    by (simp add: scan_processes_fast_def Let_def)
  from del_processes_clog [OF d] obtain e2 where "clog c' = clog c1 @ e2" "\<forall>ev \<in> set e2. \<not> per_process_step ev"
    by blast
  with c1 show ?thesis by (intro exI [of _ "Call_EnumProcesses # e2"]) auto
qed

lemma scan_processes_and_threads_clog:
  assumes "scan_processes_and_threads os c = (r, c')"
  shows "\<exists>evs. clog c' = clog c @ evs \<and> (\<forall>ev \<in> set evs. \<not> per_process_step ev)"
proof (cases "CreateToolhelp32Snapshot os (clog c)")
  case (Inl err)
  with assms have "c' = cemit Call_CreateToolhelp32Snapshot c"
    by (simp add: scan_processes_and_threads_def)
  then show ?thesis by simp
next
  case (Inr snap)
  obtain pes tes where snap: "snap = (pes, tes)" by (cases snap)
  let ?our = "GetCurrentProcessId os"
  let ?c0 = "cemit Call_CreateToolhelp32Snapshot c"
  obtain d1 c1 where p: "scan_process_entries ?our pes (removeAll ?our (keys c), ?c0) = (d1, c1)"
    by (cases "scan_process_entries ?our pes (removeAll ?our (keys c), ?c0)")
  obtain d2 f2 c2 where t: "scan_thread_entries ?our tes (d1, [], c1) = (d2, f2, c2)"
    by (cases "scan_thread_entries ?our tes (d1, [], c1)") auto
  obtain r3 c3 where d: "del_processes os d2 c2 = (r3, c3)" by (cases "del_processes os d2 c2")
  from assms Inr snap p t d have "clog c' = clog c3"
    by (auto simp add: scan_processes_and_threads_def Let_def split: sum.splits)
  moreover from scan_process_entries_clog [OF p] scan_thread_entries_clog [OF t]
  have "clog c2 = clog c @ [Call_CreateToolhelp32Snapshot]" by simp
  moreover from del_processes_clog [OF d] obtain e2 where
    "clog c3 = clog c2 @ e2" "\<forall>ev \<in> set e2. \<not> per_process_step ev" by blast
  ultimately show ?thesis by (intro exI [of _ "Call_CreateToolhelp32Snapshot # e2"]) auto
qed

lemma scan_processes_clog_keys:
  assumes "scan_processes os c = (Inr u, c')"
  shows "\<exists>infos evs. WTSEnumerateProcesses os (clog c) = Inr infos \<and>
           clog c' = clog c @ Call_WTSEnumerateProcesses # evs \<and>
           (\<forall>ev \<in> set evs. \<not> per_process_step ev) \<and>
           set (keys c') = (fst ` set infos - {GetCurrentProcessId os}) \<union>
                           (set (keys c) \<inter> {GetCurrentProcessId os})"
proof (cases "WTSEnumerateProcesses os (clog c)")
  case (Inl err)
  with assms show ?thesis by (simp add: scan_processes_def)
next
  case (Inr infos)
  let ?our = "GetCurrentProcessId os"
  let ?c0 = "cemit Call_WTSEnumerateProcesses c"
  obtain d1 c1 where p: "scan_process_entries ?our infos (removeAll ?our (keys c), ?c0) = (d1, c1)"
    by (cases "scan_process_entries ?our infos (removeAll ?our (keys c), ?c0)")
  from assms Inr p have d: "del_processes os d1 c1 = (Inr u, c')"
    by (simp add: scan_processes_def Let_def)
  from scan_process_entries_keys [OF p] have k1: "set (keys c1) = set (keys c) \<union> (fst ` set infos - {?our})"
    "set d1 = set (removeAll ?our (keys c)) - (fst ` set infos - {?our})" by simp_all
  from del_processes_keys [OF d] have k2: "set (keys c') = set (keys c1) - set d1" .
  from scan_process_entries_clog [OF p] have l1: "clog c1 = clog c @ [Call_WTSEnumerateProcesses]" by simp
  from del_processes_clog [OF d] obtain e2 where e2: "clog c' = clog c1 @ e2" "\<forall>ev \<in> set e2. \<not> per_process_step ev"
    by blast
  have "set (keys c') = (fst ` set infos - {?our}) \<union> (set (keys c) \<inter> {?our})"
    using k1 k2 by auto
  with Inr l1 e2 show ?thesis by auto
qed

lemma clog_set_process [simp]: "clog (set_process pid p c) = clog c"
  by (simp add: set_process_def)

lemma keys_set_process:
  "pid \<in> set (keys c) \<Longrightarrow> set (keys (set_process pid p c)) = set (keys c)"
  by (simp add: set_process_def keys_def update_keys del: set_map)

lemma backfill_threads_flag:
  "backfill_threads os ps (flag, c) = (flag', c') \<Longrightarrow> fst ` set ps \<subseteq> set (keys c) \<Longrightarrow>
     set (keys c') = set (keys c) \<and>
     (\<exists>evs. clog c' = clog c @ evs \<and> flag' = (flag \<and> \<not> any_failed os (clog c) evs))"
proof (induction ps arbitrary: flag c)
  case Nil
  then show ?case by simp
next
  case (Cons a ps)
  obtain pid p where a: "a = (pid, p)" by (cases a)
  from Cons.prems a have pid: "pid \<in> set (keys c)" and sub: "fst ` set ps \<subseteq> set (keys c)" by auto
  let ?ev = "Call_scan_threads (dwProcessId p)"
  show ?case
  proof (cases "threads p = []")
    case True
    with Cons.prems a have "backfill_threads os ps (flag, c) = (flag', c')" by simp
    from Cons.IH [OF this sub] show ?thesis .
  next
    case False
    show ?thesis
    proof (cases "scan_threads os (clog c) (dwProcessId p)")
      case (Inl err)
      with Cons.prems a False
      have run: "backfill_threads os ps (False, cemit ?ev c) = (flag', c')" by simp
      have "fst ` set ps \<subseteq> set (keys (cemit ?ev c))" using sub by (simp add: keys_def cemit_def)
      from Cons.IH [OF run this] obtain evs where
        "set (keys c') = set (keys (cemit ?ev c))" "clog c' = clog (cemit ?ev c) @ evs" "\<not> flag'"
        by auto
      with Inl show ?thesis
        by (intro conjI exI [of _ "?ev # evs"]) (simp_all add: keys_def cemit_def)
    next
      case (Inr tids)
      let ?c1 = "set_process pid (p\<lparr>threads := tids\<rparr>) (cemit ?ev c)"
      from Inr Cons.prems a False
      have run: "backfill_threads os ps (flag, ?c1) = (flag', c')" by simp
      have pid1: "pid \<in> set (keys (cemit ?ev c))" using pid by (simp add: keys_def cemit_def)
      have k1: "set (keys ?c1) = set (keys c)"
        using keys_set_process [OF pid1] by (simp add: keys_def cemit_def)
      with sub have "fst ` set ps \<subseteq> set (keys ?c1)" by simp
      from Cons.IH [OF run this] obtain evs where
        "set (keys c') = set (keys ?c1)" "clog c' = clog ?c1 @ evs"
        "flag' = (flag \<and> \<not> any_failed os (clog ?c1) evs)"
        by auto
      with Inr k1 show ?thesis
        by (intro conjI exI [of _ "?ev # evs"]) (simp_all add: cemit_def)
    qed
  qed
qed

lemma scan_modules_loop_flag:
  "scan_modules_loop os ps (flag, c) = (flag', c') \<Longrightarrow> fst ` set ps \<subseteq> set (keys c) \<Longrightarrow>
     set (keys c') = set (keys c) \<and>
     (\<exists>evs. clog c' = clog c @ evs \<and> flag' = (flag \<and> \<not> any_failed os (clog c) evs))"
proof (induction ps arbitrary: flag c)
  case Nil
  then show ?case by simp
next
  case (Cons a ps)
  obtain pid p where a: "a = (pid, p)" by (cases a)
  from Cons.prems a have pid: "pid \<in> set (keys c)" and sub: "fst ` set ps \<subseteq> set (keys c)" by auto
  let ?ev = "Call_scan_modules (dwProcessId p)"
  show ?case
  proof (cases "scan_modules_of os (clog c) (dwProcessId p)")
    case (Inl err)
    with Cons.prems a
    have run: "scan_modules_loop os ps (False, cemit ?ev c) = (flag', c')" by simp
    have "fst ` set ps \<subseteq> set (keys (cemit ?ev c))" using sub by (simp add: keys_def cemit_def)
    from Cons.IH [OF run this] obtain evs where
      "set (keys c') = set (keys (cemit ?ev c))" "clog c' = clog (cemit ?ev c) @ evs" "\<not> flag'"
      by auto
    with Inl show ?thesis
      by (intro conjI exI [of _ "?ev # evs"]) (simp_all add: keys_def cemit_def)
  next
    case (Inr bases)
    let ?c1 = "set_process pid (p\<lparr>modules := bases\<rparr>) (cemit ?ev c)"
    from Inr Cons.prems a
    have run: "scan_modules_loop os ps (flag, ?c1) = (flag', c')" by simp
    have pid1: "pid \<in> set (keys (cemit ?ev c))" using pid by (simp add: keys_def cemit_def)
    have k1: "set (keys ?c1) = set (keys c)"
      using keys_set_process [OF pid1] by (simp add: keys_def cemit_def)
    with sub have "fst ` set ps \<subseteq> set (keys ?c1)" by simp
    from Cons.IH [OF run this] obtain evs where
      "set (keys c') = set (keys ?c1)" "clog c' = clog ?c1 @ evs"
      "flag' = (flag \<and> \<not> any_failed os (clog ?c1) evs)"
      by auto
    with Inr k1 show ?thesis
      by (intro conjI exI [of _ "?ev # evs"]) (simp_all add: cemit_def)
  qed
qed

lemma scan_process_filenames_loop_flag:
  "scan_process_filenames_loop os ps (flag, c) = (flag', c') \<Longrightarrow> fst ` set ps \<subseteq> set (keys c) \<Longrightarrow>
     set (keys c') = set (keys c) \<and>
     (\<exists>evs. clog c' = clog c @ evs \<and> flag' = (flag \<and> \<not> any_failed os (clog c) evs))"
proof (induction ps arbitrary: flag c)
  case Nil
  then show ?case by simp
next
  case (Cons a ps)
  obtain pid p where a: "a = (pid, p)" by (cases a)
  from Cons.prems a have pid: "pid \<in> set (keys c)" and sub: "fst ` set ps \<subseteq> set (keys c)" by auto
  let ?ev = "Call_get_image_name (dwProcessId p)"
  have failing: ?case
    if run: "scan_process_filenames_loop os ps (False, cemit ?ev c) = (flag', c')"
      and f: "step_failed os (clog c) ?ev"
  proof -
    have "fst ` set ps \<subseteq> set (keys (cemit ?ev c))" using sub by (simp add: keys_def cemit_def)
    from Cons.IH [OF run this] obtain evs where
      "set (keys c') = set (keys (cemit ?ev c))" "clog c' = clog (cemit ?ev c) @ evs" "\<not> flag'"
      by auto
    with f show ?thesis
      by (intro conjI exI [of _ "?ev # evs"]) (simp_all add: keys_def cemit_def)
  qed
  show ?case
  proof (cases "get_image_name os (clog c) (dwProcessId p)")
    case (Inl e)
    with Cons.prems a show ?thesis by (intro failing) simp_all
  next
    case (Inr new_name)
    show ?thesis
    proof (cases "truthy new_name")
      case False
      with Inr Cons.prems a show ?thesis by (intro failing) simp_all
    next
      case True
      let ?c1 = "set_process pid (p\<lparr>fileName := new_name\<rparr>) (cemit ?ev c)"
      from Inr True Cons.prems a
      have run: "scan_process_filenames_loop os ps (flag, ?c1) = (flag', c')" by simp
      have pid1: "pid \<in> set (keys (cemit ?ev c))" using pid by (simp add: keys_def cemit_def)
      have k1: "set (keys ?c1) = set (keys c)"
        using keys_set_process [OF pid1] by (simp add: keys_def cemit_def)
      with sub have "fst ` set ps \<subseteq> set (keys ?c1)" by simp
      from Cons.IH [OF run this] obtain evs where
        "set (keys c') = set (keys ?c1)" "clog c' = clog ?c1 @ evs"
        "flag' = (flag \<and> \<not> any_failed os (clog ?c1) evs)"
        by auto
      with Inr True k1 show ?thesis
        by (intro conjI exI [of _ "?ev # evs"]) (simp_all add: cemit_def)
    qed
  qed
qed

lemma scan_discover_flag:
  assumes "scan_discover os c = (Inr b, c')"
  shows "\<exists>evs. clog c' = clog c @ evs \<and> b = (\<not> any_failed os (clog c) evs)"
proof -
  obtain r1 c1 where t: "scan_processes_and_threads os c = (r1, c1)"
    by (cases "scan_processes_and_threads os c")
  from scan_processes_and_threads_clog [OF t] obtain e1 where
    e1: "clog c1 = clog c @ e1" "\<forall>ev \<in> set e1. \<not> per_process_step ev" by blast
  show ?thesis
  proof (cases r1)
    case (Inr u)
    with assms t have "b" "c' = c1" by (simp_all add: scan_discover_def)
    with e1 any_failed_other [of e1 os "clog c"] show ?thesis by auto
  next
    case (Inl e)
    obtain r2 c2 where f: "scan_processes_fast os c1 = (r2, c2)"
      by (cases "scan_processes_fast os c1")
    from scan_processes_fast_clog [OF f] obtain e2 where
      e2: "clog c2 = clog c1 @ e2" "\<forall>ev \<in> set e2. \<not> per_process_step ev" by blast
    from assms t Inl f have bf: "backfill_threads os (processDict c2) (True, c2) = (b, c')"
      by (auto simp add: scan_discover_def split: sum.splits prod.splits)
    have "fst ` set (processDict c2) \<subseteq> set (keys c2)" by (simp add: keys_def)
    from backfill_threads_flag [OF bf this] obtain e3 where
      e3: "clog c' = clog c2 @ e3" "b = (\<not> any_failed os (clog c2) e3)" by auto
    have "\<not> any_failed os (clog c) (e1 @ e2)"
      using e1 e2 by (intro any_failed_other) auto
    with e1 e2 e3 show ?thesis
      by (intro exI [of _ "(e1 @ e2) @ e3"]) (simp add: any_failed_append)
  qed
qed

lemma del_processes_keys_any:
  "del_processes os pids c = (r, c') \<Longrightarrow>
     set (keys c) - set pids \<subseteq> set (keys c') \<and> set (keys c') \<subseteq> set (keys c)"
proof (induction pids arbitrary: c)
  case Nil
  then show ?case by simp
next
  case (Cons pid pids)
  obtain r1 c1 where d: "del_process os pid c = (r1, c1)" by (cases "del_process os pid c")
  note k = del_process_keys [OF d]
  show ?case
  proof (cases r1)
    case (Inl e)
    with Cons.prems d have "c' = c1" by simp
    with k show ?thesis by auto
  next
    case (Inr v)
    with Cons.prems d have "del_processes os pids c1 = (r, c')" by simp
    from Cons.IH [OF this] k show ?thesis by auto
  qed
qed

lemma scan_processes_fast_keys_any:
  assumes "EnumProcesses os (clog c) = Inr pids" and "scan_processes_fast os c = (r, c')"
  shows "set pids - {GetCurrentProcessId os} \<subseteq> set (keys c') \<and>
         set (keys c') \<subseteq> set (keys c) \<union> set pids \<and>
         (GetCurrentProcessId os \<in> set (keys c') \<longleftrightarrow> GetCurrentProcessId os \<in> set (keys c))"
proof -
  let ?our = "GetCurrentProcessId os"
  let ?c0 = "cemit Call_EnumProcesses c"
  let ?new = "removeAll ?our (remdups pids)"
  let ?old = "removeAll ?our (keys ?c0)"
  let ?add = "filter (\<lambda>pid. pid \<notin> set ?old) ?new"
  let ?c1 = "fold (\<lambda>pid. add_new_process pid None) ?add ?c0"
  from assms have d: "del_processes os (filter (\<lambda>pid. pid \<notin> set ?new) ?old) ?c1 = (r, c')"
    by (simp add: scan_processes_fast_def Let_def)
  from del_processes_keys_any [OF d] show ?thesis by (auto simp add: keys_fold_add)
qed

lemma scan_processes_fast_own:
  assumes "scan_processes_fast os c = (r, c')"
  shows "GetCurrentProcessId os \<in> set (keys c') \<longleftrightarrow> GetCurrentProcessId os \<in> set (keys c)"
proof (cases "EnumProcesses os (clog c)")
  case (Inl err)
  with assms have "c' = cemit Call_EnumProcesses c" by (simp add: scan_processes_fast_def)
  then show ?thesis by (simp add: keys_def)
next
  case (Inr pids)
  from scan_processes_fast_keys_any [OF Inr assms] show ?thesis by simp
qed

lemma scan_processes_and_threads_keys_any:
  assumes "CreateToolhelp32Snapshot os (clog c) = Inr (pes, tes)"
    and "scan_processes_and_threads os c = (r, c')"
  shows "(fst ` set pes \<union> snd ` set tes) - {GetCurrentProcessId os} \<subseteq> set (keys c') \<and>
         set (keys c') \<subseteq> set (keys c) \<union> fst ` set pes \<union> snd ` set tes \<and>
         (GetCurrentProcessId os \<in> set (keys c') \<longleftrightarrow> GetCurrentProcessId os \<in> set (keys c))"
proof -
  let ?our = "GetCurrentProcessId os"
  let ?c0 = "cemit Call_CreateToolhelp32Snapshot c"
  obtain d1 c1 where p: "scan_process_entries ?our pes (removeAll ?our (keys c), ?c0) = (d1, c1)"
    by (cases "scan_process_entries ?our pes (removeAll ?our (keys c), ?c0)")
  obtain d2 f2 c2 where t: "scan_thread_entries ?our tes (d1, [], c1) = (d2, f2, c2)"
    by (cases "scan_thread_entries ?our tes (d1, [], c1)") auto
  obtain r3 c3 where d: "del_processes os d2 c2 = (r3, c3)" by (cases "del_processes os d2 c2")
  from assms p t d have "set (keys c') = set (keys c3)"
    by (auto simp add: scan_processes_and_threads_def Let_def split: sum.splits)
  moreover from scan_process_entries_keys [OF p]
  have k1: "set (keys c1) = set (keys c) \<union> (fst ` set pes - {?our})"
    "set d1 = set (removeAll ?our (keys c)) - (fst ` set pes - {?our})" by simp_all
  moreover from scan_thread_entries_keys [OF t]
  have k2: "set (keys c2) = set (keys c1) \<union> (snd ` set tes - {?our})"
    "set d2 = set d1 - (snd ` set tes - {?our})" by simp_all
  moreover note del_processes_keys_any [OF d]
  ultimately show ?thesis by auto
qed

lemma scan_processes_and_threads_own:
  assumes "scan_processes_and_threads os c = (r, c')"
  shows "GetCurrentProcessId os \<in> set (keys c') \<longleftrightarrow> GetCurrentProcessId os \<in> set (keys c)"
proof (cases "CreateToolhelp32Snapshot os (clog c)")
  case (Inl err)
  with assms have "c' = cemit Call_CreateToolhelp32Snapshot c"
    by (simp add: scan_processes_and_threads_def)
  then show ?thesis by (simp add: keys_def)
next
  case (Inr snap)
  obtain pes tes where "snap = (pes, tes)" by (cases snap)
  with Inr have "CreateToolhelp32Snapshot os (clog c) = Inr (pes, tes)" by simp
  from scan_processes_and_threads_keys_any [OF this assms] show ?thesis by simp
qed

lemma scan_processes_keys_any:
  assumes "WTSEnumerateProcesses os (clog c) = Inr infos" and "scan_processes os c = (r, c')"
  shows "fst ` set infos - {GetCurrentProcessId os} \<subseteq> set (keys c') \<and>
         set (keys c') \<subseteq> set (keys c) \<union> fst ` set infos \<and>
         (GetCurrentProcessId os \<in> set (keys c') \<longleftrightarrow> GetCurrentProcessId os \<in> set (keys c))"
proof -
  let ?our = "GetCurrentProcessId os"
  let ?c0 = "cemit Call_WTSEnumerateProcesses c"
  obtain d1 c1 where p: "scan_process_entries ?our infos (removeAll ?our (keys c), ?c0) = (d1, c1)"
    by (cases "scan_process_entries ?our infos (removeAll ?our (keys c), ?c0)")
  from assms p have d: "del_processes os d1 c1 = (r, c')"
    by (simp add: scan_processes_def Let_def)
  from scan_process_entries_keys [OF p] have k1: "set (keys c1) = set (keys c) \<union> (fst ` set infos - {?our})"
    "set d1 = set (removeAll ?our (keys c)) - (fst ` set infos - {?our})" by simp_all
  with del_processes_keys_any [OF d] show ?thesis by auto
qed

lemma scan_processes_keys:
  assumes "WTSEnumerateProcesses os (clog c) = Inr infos" and "scan_processes os c = (Inr (), c')"
  shows "set (keys c') = (fst ` set infos - {GetCurrentProcessId os}) \<union>
                         (set (keys c) \<inter> {GetCurrentProcessId os})"
  using scan_processes_clog_keys [OF assms(2)] assms(1) by auto

lemma scan_discover_own:
  assumes "scan_discover os c = (r, c')"
  shows "GetCurrentProcessId os \<in> set (keys c') \<longleftrightarrow> GetCurrentProcessId os \<in> set (keys c)"
proof -
  obtain r1 c1 where t: "scan_processes_and_threads os c = (r1, c1)"
    by (cases "scan_processes_and_threads os c")
  note o1 = scan_processes_and_threads_own [OF t]
  obtain r2 c2 where f: "scan_processes_fast os c1 = (r2, c2)"
    by (cases "scan_processes_fast os c1")
  note o2 = scan_processes_fast_own [OF f]
  obtain b3 c3 where bf: "backfill_threads os (processDict c2) (True, c2) = (b3, c3)"
    by (cases "backfill_threads os (processDict c2) (True, c2)")
  have "fst ` set (processDict c2) \<subseteq> set (keys c2)" by (simp add: keys_def)
  from backfill_threads_flag [OF bf this] have o3: "set (keys c3) = set (keys c2)" by simp
  from assms t f bf have "c' = c1 \<or> c' = c2 \<or> c' = c3"
    by (auto simp add: scan_discover_def split: sum.splits)
  with o1 o2 o3 show ?thesis by auto
qed

lemma scan_run:
  assumes "scan os c = (Inr b, c')"
  obtains e1 infos e2 e3 e4 and c2 c3 :: container where
    "clog c2 = clog c @ e1 @ [Call_WTSEnumerateProcesses] @ e2"
    "clog c3 = clog c @ e1 @ [Call_WTSEnumerateProcesses] @ e2 @ e3"
    "clog c' = clog c @ e1 @ [Call_WTSEnumerateProcesses] @ e2 @ e3 @ e4"
    "WTSEnumerateProcesses os (clog c @ e1) = Inr infos"
    "\<forall>ev \<in> set e2. \<not> per_process_step ev"
    "b = (\<not> any_failed os (clog c) e1 \<and> \<not> any_failed os (clog c2) e3 \<and>
          \<not> any_failed os (clog c3) e4)"
    "set (keys c') = (fst ` set infos - {GetCurrentProcessId os}) \<union>
                     (set (keys c) \<inter> {GetCurrentProcessId os})"
proof -
  obtain r1 c1 where d: "scan_discover os c = (r1, c1)" by (cases "scan_discover os c")
  obtain r2 c2 where s: "scan_processes os c1 = (r2, c2)" by (cases "scan_processes os c1")
  obtain b3 c3 where m: "scan_modules os c2 = (b3, c3)" by (cases "scan_modules os c2")
  obtain b4 c4 where n: "scan_process_filenames os c3 = (b4, c4)"
    by (cases "scan_process_filenames os c3")
  have "\<exists>b1. r1 = Inr b1 \<and> r2 = Inr () \<and> b = (b1 \<and> b3 \<and> b4) \<and> c' = c4"
    using assms d s m n by (cases r1; cases r2) (simp_all add: scan_def)
  then obtain b1 where r1: "r1 = Inr b1" and r2: "r2 = Inr ()"
    and b: "b = (b1 \<and> b3 \<and> b4)" and c': "c' = c4"
    by blast
  from scan_discover_flag [OF d [unfolded r1]] obtain e1 where
    e1: "clog c1 = clog c @ e1" "b1 = (\<not> any_failed os (clog c) e1)" by blast
  note own = scan_discover_own [OF d]
  from scan_processes_clog_keys [OF s [unfolded r2]] obtain infos e2 where
    w: "WTSEnumerateProcesses os (clog c1) = Inr infos"
    and e2: "clog c2 = clog c1 @ Call_WTSEnumerateProcesses # e2"
      "\<forall>ev \<in> set e2. \<not> per_process_step ev"
    and k2: "set (keys c2) = (fst ` set infos - {GetCurrentProcessId os}) \<union>
                           (set (keys c1) \<inter> {GetCurrentProcessId os})"
    by blast
  have sub2: "fst ` set (processDict c2) \<subseteq> set (keys c2)" by (simp add: keys_def)
  from scan_modules_loop_flag [OF m [unfolded scan_modules_def] sub2] obtain e3 where
    k3: "set (keys c3) = set (keys c2)" and
    e3: "clog c3 = clog c2 @ e3" "b3 = (\<not> any_failed os (clog c2) e3)" by auto
  have sub3: "fst ` set (processDict c3) \<subseteq> set (keys c3)" by (simp add: keys_def)
  from scan_process_filenames_loop_flag [OF n [unfolded scan_process_filenames_def] sub3]
  obtain e4 where
    k4: "set (keys c4) = set (keys c3)" and
    e4: "clog c4 = clog c3 @ e4" "b4 = (\<not> any_failed os (clog c3) e4)" by auto
  have f1: "clog c2 = clog c @ e1 @ [Call_WTSEnumerateProcesses] @ e2"
    using e1(1) e2(1) by simp
  have f2: "clog c3 = clog c @ e1 @ [Call_WTSEnumerateProcesses] @ e2 @ e3"
    using e1(1) e2(1) e3(1) by simp
  have f3: "clog c' = clog c @ e1 @ [Call_WTSEnumerateProcesses] @ e2 @ e3 @ e4"
    using e1(1) e2(1) e3(1) e4(1) c' by simp
  have f4: "WTSEnumerateProcesses os (clog c @ e1) = Inr infos"
    using w e1(1) by simp
  have f6: "b = (\<not> any_failed os (clog c) e1 \<and> \<not> any_failed os (clog c2) e3 \<and>
          \<not> any_failed os (clog c3) e4)"
    using b e1(2) e3(2) e4(2) by simp
  have "set (keys c') = set (keys c2)" using k3 k4 c' by simp
  also have "\<dots> = (fst ` set infos - {GetCurrentProcessId os}) \<union>
                     (set (keys c) \<inter> {GetCurrentProcessId os})"
    unfolding k2 using own by blast
  finally have f7: "set (keys c') = (fst ` set infos - {GetCurrentProcessId os}) \<union>
                     (set (keys c) \<inter> {GetCurrentProcessId os})" .
  show thesis by (rule that [OF f1 f2 f3 f4 e2(2) f6 f7])
qed

lemmas scan_defs = scan_def scan_discover_def scan_processes_and_threads_def scan_processes_def
  scan_modules_def scan_process_filenames_def fill_fileName_def add_thread_def del_dead_threads_def
  set_process_def truthy_def container_defs



lemma session_short_run:
  "scan os_session_short empty_container =
     (Inr True,
      \<lparr>processDict =
         [(100, \<lparr>oid = 0, dwProcessId = 100, hProcess = HNone, fileName = Some ''C:/bin/a.exe'',
                  threads = [101], modules = [0x400000], Process_wow64 = None\<rparr>)],
       next_oid = 2,
       clog = [Call_CreateToolhelp32Snapshot, Call_WTSEnumerateProcesses,
               Call_scan_modules 100, Call_get_image_name 100]\<rparr>)"
  by (simp add: scan_defs os_session_short_def os_demo_def empty_container_def)

lemma scan_demo_run:
  "scan os_demo container_demo =
     (Inr True,
      \<lparr>processDict =
         [(100, \<lparr>oid = 0, dwProcessId = 100, hProcess = HObj \<lparr>hvalue = 7, dwAccess = 0x400\<rparr>,
                  fileName = Some ''C:/bin/a.exe'', threads = [101], modules = [0x400000],
                  Process_wow64 = None\<rparr>)],
       next_oid = 2,
       clog = [Call_CreateToolhelp32Snapshot, Call_WTSEnumerateProcesses,
               Call_scan_modules 100, Call_get_image_name 100]\<rparr>)"
  by (simp add: scan_defs os_demo_def container_demo_def)

lemma session_demo_run:
  "scan_processes os_demo container_demo =
     (Inr (),
      \<lparr>processDict =
        [(100, \<lparr>oid = 0, dwProcessId = 100, hProcess = HObj \<lparr>hvalue = 7, dwAccess = 0x400\<rparr>,
                 fileName = Some ''a.exe'', threads = [101], modules = [0x400000], Process_wow64 = None\<rparr>)],
       next_oid = 2, clog = [Call_WTSEnumerateProcesses]\<rparr>)"
  by (simp add: scan_defs os_demo_def container_demo_def)

lemma demo_query_free: "demo_query 0x14000 = Inr (demo_region 0x14000 0xC000 0x10000 1 0)"
  by (simp add: demo_query_def)

section \<open>The handle manager merges rights and reopens only when it must\<close>

text \<open>
  Claim C7. Take any series of \<^verbatim>\<open>get_handle\<close> calls on a \<^verbatim>\<open>Process\<close>, in any state
  and against any OS, and one more call \<^verbatim>\<open>get_handle(R)\<close> after them. That call
  asks the OS to open a handle if and only if no held handle already carries
  every right of \<open>R\<close>; the handle it asks for has the held rights merged with
  \<open>R\<close>; the previous handle is closed exactly when the open succeeded and a
  handle object was held. When a sufficient handle is held the call changes
  nothing (no OS call at all) and returns the held handle itself. Whenever the
  call returns, the handle it returns is the one now held, and its access
  rights contain, bit by bit, \<open>R\<close> and every mask requested by an earlier call
  of the series that returned (a call that raised \<^verbatim>\<open>WindowsError\<close> obtained
  nothing and left the held handle as it was).
\<close>

theorem get_handle_rights:
  assumes "s0 = get_handle_calls os Rs s" and "get_handle os R s0 = (r, s1)"
  shows "(list_ex is_open (events_since s0 s1) \<longleftrightarrow> \<not> holds_rights s0 R) \<and>
         (list_ex is_close (events_since s0 s1) \<longleftrightarrow>
            \<not> holds_rights s0 R \<and> (\<exists>h. r = Inr h) \<and> (\<exists>h0. hProcess (self s0) = HObj h0)) \<and>
         (\<not> holds_rights s0 R \<longrightarrow>
            take 1 (events_since s0 s1) =
              [Call_OpenProcess (merged_rights s0 R) (dwProcessId (self s0))]) \<and>
         (holds_rights s0 R \<longrightarrow> s1 = s0 \<and> r = Inr (hProcess (self s0))) \<and>
         (\<forall>h. r = Inr h \<longrightarrow>
            hProcess (self s1) = h \<and>
            (\<exists>hd. h = HObj hd \<and>
               (\<forall>R' \<in> set (R # granted os Rs s). \<forall>n. bit R' n \<longrightarrow> bit (dwAccess hd) n)))"
proof (cases "holds_rights s0 R")
  case True
  then have same: "s1 = s0" "r = Inr (hProcess (self s0))"
    using assms(2) get_handle_reuse [OF True, of os] by auto
  have held: "\<forall>R' \<in> set (R # granted os Rs s). holds_rights s0 R'"
    using True assms(1) by (auto dest: granted_held)
  from True obtain hd where hd: "hProcess (self s0) = HObj hd"
    by (auto simp add: holds_rights_def split: hproc.splits)
  with held have "\<forall>R' \<in> set (R # granted os Rs s). \<forall>n. bit R' n \<longrightarrow> bit (dwAccess hd) n"
    unfolding holds_rights_def by (simp add: rights_bits)
  with True same hd show ?thesis
    by (simp add: events_since_def)
next
  case False
  from get_handle_open_log [OF False assms(2)] obtain evs where
    evs: "log s1 = log s0 @ Call_OpenProcess (merged_rights s0 R) (dwProcessId (self s0)) # evs"
      "\<not> list_ex is_open evs"
      "list_ex is_close evs \<longleftrightarrow> (\<exists>u. r = Inr u) \<and> (\<exists>h. hProcess (self s0) = HObj h)"
    by blast
  have ev: "events_since s0 s1 = Call_OpenProcess (merged_rights s0 R) (dwProcessId (self s0)) # evs"
    using evs(1) by simp
  have granted_part:
    "\<exists>hd. h = HObj hd \<and> (\<forall>R' \<in> set (R # granted os Rs s). \<forall>n. bit R' n \<longrightarrow> bit (dwAccess hd) n)"
    and ret: "hProcess (self s1) = h"
    if r: "r = Inr h" for h
  proof -
    from assms(2) r have g: "get_handle os R s0 = (Inr h, s1)" by simp
    show "hProcess (self s1) = h" using get_handle_ok(1) [OF g] by simp
    have "\<forall>R' \<in> set (R # granted os Rs s). holds_rights s1 R'"
      using get_handle_ok(2) [OF g] get_handle_ok(3) [OF g] assms(1) granted_held by auto
    moreover from get_handle_ok(2) [OF g] get_handle_ok(1) [OF g] obtain hd where "h = HObj hd"
      by (auto simp add: holds_rights_def split: hproc.splits)
    ultimately show
      "\<exists>hd. h = HObj hd \<and> (\<forall>R' \<in> set (R # granted os Rs s). \<forall>n. bit R' n \<longrightarrow> bit (dwAccess hd) n)"
      using get_handle_ok(1) [OF g] unfolding holds_rights_def by (simp add: rights_bits)
  qed
  show ?thesis
    using False ev evs(2,3) granted_part ret by auto
qed

text \<open>
  The theorem at two concrete inputs. After requests for \<open>0x400\<close> and \<open>0x10\<close>
  the handle holds \<open>0x410\<close>, and a repeated request for \<open>0x400\<close> does nothing
  and returns the held handle. After a request for \<open>0x400\<close> alone, a request
  for \<open>0x10\<close> opens a handle with \<open>0x410\<close> and closes the old one.
\<close>

theorem get_handle_rights_witness:
  "(let s0 = get_handle_calls os_demo [0x400, 0x10] proc_demo;
        (r, s1) = get_handle os_demo 0x400 s0
    in holds_rights s0 0x400 \<and> s1 = s0 \<and> r = Inr (hProcess (self s0)) \<and>
       \<not> list_ex is_open (events_since s0 s1) \<and>
       granted os_demo [0x400, 0x10] proc_demo = [0x400, 0x10] \<and>
       (\<exists>hd. r = Inr (HObj hd) \<and>
          (\<forall>R' \<in> set [0x400, 0x400, 0x10 :: int]. \<forall>n. bit R' n \<longrightarrow> bit (dwAccess hd) n))) \<and>
   (let s0 = get_handle_calls os_demo [0x400] proc_demo;
        (r, s1) = get_handle os_demo 0x10 s0
    in \<not> holds_rights s0 0x10 \<and>
       list_ex is_open (events_since s0 s1) \<and> list_ex is_close (events_since s0 s1) \<and>
       take 1 (events_since s0 s1) = [Call_OpenProcess 0x410 1234] \<and>
       r = Inr (HObj \<lparr>hvalue = 1, dwAccess = 0x410\<rparr>))"
proof -
  define S0 where "S0 =
      \<lparr>self = \<lparr>oid = 0, dwProcessId = 1234, hProcess = HObj \<lparr>hvalue = 1, dwAccess = 0x410\<rparr>,
                fileName = None, threads = [], modules = [], Process_wow64 = None\<rparr>,
       log = [Call_OpenProcess 0x400 1234, Call_OpenProcess 0x410 1234, Call_CloseHandle 0]\<rparr>"
  define T0 where "T0 =
      \<lparr>self = \<lparr>oid = 0, dwProcessId = 1234, hProcess = HObj \<lparr>hvalue = 0, dwAccess = 0x400\<rparr>,
                fileName = None, threads = [], modules = [], Process_wow64 = None\<rparr>,
       log = [Call_OpenProcess 0x400 1234]\<rparr>"
  define T1 where "T1 =
      \<lparr>self = \<lparr>oid = 0, dwProcessId = 1234, hProcess = HObj \<lparr>hvalue = 1, dwAccess = 0x410\<rparr>,
                fileName = None, threads = [], modules = [], Process_wow64 = None\<rparr>,
       log = [Call_OpenProcess 0x400 1234, Call_OpenProcess 0x410 1234, Call_CloseHandle 0]\<rparr>"
  have e1: "S0 = get_handle_calls os_demo [0x400, 0x10] proc_demo"
    by (simp add: S0_def demo_defs)
  have g1: "granted os_demo [0x400, 0x10] proc_demo = [0x400, 0x10]"
    by (simp add: demo_defs)
  have r1: "get_handle os_demo 0x400 S0 = (Inr (hProcess (self S0)), S0)"
    by (simp add: S0_def demo_defs)
  have h1: "holds_rights S0 0x400"
    by (simp add: S0_def holds_rights_def)
  have e2: "T0 = get_handle_calls os_demo [0x400] proc_demo"
    by (simp add: T0_def demo_defs)
  have r2: "get_handle os_demo 0x10 T0 = (Inr (HObj \<lparr>hvalue = 1, dwAccess = 0x410\<rparr>), T1)"
    by (simp add: T0_def T1_def demo_defs)
  have h2: "\<not> holds_rights T0 0x10"
    by (simp add: T0_def holds_rights_def)
  have m2: "merged_rights T0 0x10 = 0x410" "dwProcessId (self T0) = 1234"
    by (simp_all add: T0_def merged_rights_def)
  have first: "holds_rights S0 0x400 \<and> S0 = S0 \<and>
       Inr (hProcess (self S0)) = Inr (hProcess (self S0)) \<and>
       \<not> list_ex is_open (events_since S0 S0) \<and>
       granted os_demo [0x400, 0x10] proc_demo = [0x400, 0x10] \<and>
       (\<exists>hd. Inr (hProcess (self S0)) = (Inr (HObj hd) :: exn + hproc) \<and>
          (\<forall>R' \<in> set [0x400, 0x400, 0x10 :: int]. \<forall>n. bit R' n \<longrightarrow> bit (dwAccess hd) n))"
    using get_handle_rights [OF e1 r1, unfolded g1] h1 g1 by (simp del: granted.simps)
  have second: "\<not> holds_rights T0 0x10 \<and>
       list_ex is_open (events_since T0 T1) \<and> list_ex is_close (events_since T0 T1) \<and>
       take 1 (events_since T0 T1) = [Call_OpenProcess 0x410 1234] \<and>
       (Inr (HObj \<lparr>hvalue = 1, dwAccess = 0x410\<rparr>) :: exn + hproc) =
          Inr (HObj \<lparr>hvalue = 1, dwAccess = 0x410\<rparr>)"
    using get_handle_rights [OF e2 r2] h2 m2 by (simp add: T0_def)
  show ?thesis
    unfolding Let_def e1 [symmetric] e2 [symmetric] r1 r2 prod.case
    using first second by blast
qed

section \<open>The pages of a region that does not match\<close>

text \<open>
  Claim C1 at a failing input. The captured region is two committed pages at
  \<open>0x14000\<close>; the target has free space there, in a region of another size,
  so the restore goes page by page. For a free current region and a
  committed captured one the transition table names an allocation that
  reserves and commits, and the first page gets it. The descriptor of the
  current region is then passed on to the next page with the state and the
  protection that the first call wrote into it, so for the second page
  \<^verbatim>\<open>__restore_mbi\<close> finds the states equal and makes no call: the page at
  \<open>0x15000\<close> stays free, and the restore returns without an error.
\<close>

theorem restore_pages_skip_later_pages:
  "VirtualQueryEx os_demo [] hp_demo 0x14000 = Inr (demo_region 0x14000 0xC000 MEM_FREE 1 0) \<and>
   is_commited noaccess_pages \<and> BaseAddress noaccess_pages = 0x14000 \<and>
   RegionSize noaccess_pages = 2 * pageSize \<and>
   restore_memory_snapshot os_demo (SnapshotList [Region noaccess_pages]) True False held_demo =
     (Inr (),
      held_demo\<lparr>log := [Call_scan_threads 1234, Call_Thread_suspend 1, Call_Thread_suspend 2,
                         Call_VirtualQueryEx hp_demo 0x14000,
                         Call_VirtualAllocEx hp_demo 0x14000 pageSize (MEM_RESERVE OR MEM_COMMIT) 1,
                         Call_Thread_resume 1, Call_Thread_resume 2]\<rparr>)"
  by (simp add: run_defs restore_defs access_consts page_defs os_demo_def demo_query_free
      noaccess_pages_def pageSize_def Let_def)

section \<open>The restore runs between a suspension and a resumption\<close>



section \<open>Which snapshot arguments are rejected\<close>

text \<open>
  Claim C9, as the code has it. An argument that is not a list, an empty
  list, or a list whose first element is not a region descriptor is rejected
  with \<^verbatim>\<open>TypeError\<close> before anything is done: the state of the \<^verbatim>\<open>Process\<close>
  object and the log of OS calls are unchanged, so no handle was opened, no
  thread suspended and no memory touched. Only the first element is checked.
\<close>

theorem restore_memory_snapshot_rejects:
  assumes "snapshot = NotAList \<or> snapshot = SnapshotList [] \<or>
           (\<exists>rest. snapshot = SnapshotList (NotRegion # rest))"
  shows "restore_memory_snapshot os snapshot bSkipMappedFiles bSkipOnError s = (Inl TypeError, s)"
  using assms by (auto simp add: restore_memory_snapshot_def)

text \<open>The theorem for a generator and for a list whose first element is malformed.\<close>

theorem restore_memory_snapshot_rejects_witness:
  "restore_memory_snapshot os_demo NotAList True False held_demo = (Inl TypeError, held_demo) \<and>
   restore_memory_snapshot os_demo (SnapshotList [NotRegion, Region rw_page]) True False held_demo =
     (Inl TypeError, held_demo)"
  using restore_memory_snapshot_rejects [of NotAList os_demo True False held_demo]
    restore_memory_snapshot_rejects [of "SnapshotList [NotRegion, Region rw_page]" os_demo True False held_demo]
  by simp

text \<open>
  Claim C9 as stated fails for a list in which only a later element is
  malformed: the first region is restored (here its protection is changed)
  with the threads suspended and resumed, and the call ends in
  \<^verbatim>\<open>AttributeError\<close>, not in a rejection before any mutation.
\<close>

theorem restore_memory_snapshot_late_malformed:
  "fst (restore_memory_snapshot os_demo (SnapshotList [Region ro_page, NotRegion]) True False held_demo) =
     Inl AttributeError \<and>
   events_since held_demo
     (snd (restore_memory_snapshot os_demo (SnapshotList [Region ro_page, NotRegion]) True False held_demo)) =
     [Call_scan_threads 1234, Call_Thread_suspend 1, Call_Thread_suspend 2,
      Call_VirtualQueryEx hp_demo 0x10000, Call_VirtualProtectEx hp_demo 0x10000 0x1000 2,
      Call_Thread_resume 1, Call_Thread_resume 2] \<and>
   is_mutation (Call_VirtualProtectEx hp_demo 0x10000 0x1000 2)"
  by (simp add: run_defs restore_defs access_consts page_defs os_demo_def demo_query_page
      events_since_def is_mutation_def)

section \<open>The content of a private region is not written back\<close>

text \<open>
  Claim C2 at a failing input. The captured region is a committed read-write
  private page with content; it is not backed by a mapped file or an image,
  and \<^verbatim>\<open>bSkipMappedFiles\<close> has its default value. The content step tests
  \<^verbatim>\<open>old_mbi.Type != 0\<close>, which holds for a private region too, so it writes
  nothing: the whole restore makes no \<^verbatim>\<open>WriteProcessMemory\<close> call.
\<close>

theorem restore_skips_private_content:
  "has_content os_demo rw_page \<and> Type rw_page = MEM_PRIVATE \<and> \<not> is_mapped rw_page \<and>
   \<not> is_image rw_page \<and> content rw_page = Some zero_bytes \<and>
   restore_data os_demo free_page rw_page True held_demo =
     (Inr (free_page\<lparr>content := Some zero_bytes\<rparr>), held_demo) \<and>
   restore_memory_snapshot os_demo (SnapshotList [Region rw_page]) True False held_demo =
     (Inr (),
      held_demo\<lparr>log := [Call_scan_threads 1234, Call_Thread_suspend 1, Call_Thread_suspend 2,
                         Call_VirtualQueryEx hp_demo 0x10000,
                         Call_Thread_resume 1, Call_Thread_resume 2]\<rparr>)"
  by (simp add: run_defs restore_defs access_consts page_defs os_demo_def demo_query_page
      MEM_PRIVATE_def is_mapped_def is_image_def MEM_MAPPED_def MEM_IMAGE_def)

section \<open>The memory map tiles the requested range\<close>

text \<open>
  Claim C6. Let the OS answer each query with the region that starts at the
  page of the queried address, and let the aligned lower bound \<open>minA\<close> be
  page aligned. Then for every range and from every state the regions that
  \<^verbatim>\<open>iter_memory_map\<close> yields are contiguous: the first starts at \<open>minA\<close>, each
  next one starts where the one before ends, all have a positive size (so
  they are in increasing order and do not overlap) and start below the upper
  bound \<open>maxA\<close>. When the range is not empty the walk ends in one of three
  ways: the last region ends at or beyond \<open>maxA\<close>; or the query at the
  cursor raised \<^verbatim>\<open>ERROR_INVALID_PARAMETER\<close>, which ends the walk without an
  exception; or that query raised another exception, which the walk raises.
  \<^verbatim>\<open>ERROR_INVALID_PARAMETER\<close> is never raised. An empty range yields nothing
  and makes no call.
\<close>

theorem iter_memory_map_tiles:
  assumes "page_granular os"
    and "align_address_range os minAddr maxAddr = (minA, maxA)"
    and "minA mod pageSize = 0"
    and "iter_memory_map os minAddr maxAddr s = ((mbis, r), s')"
  shows "contiguous mbis \<and>
         (\<forall>m \<in> set mbis. 0 < RegionSize m \<and> BaseAddress m < maxA) \<and>
         (mbis \<noteq> [] \<longrightarrow> BaseAddress (hd mbis) = minA) \<and>
         r \<noteq> Some (WindowsError ERROR_INVALID_PARAMETER) \<and>
         (minA < maxA \<longrightarrow>
            (case r of
               None \<Rightarrow> (mbis \<noteq> [] \<and> maxA \<le> region_end (last mbis)) \<or>
                       (\<exists>s0. mquery os (walk_cursor minA mbis) s0 =
                               (Inl (WindowsError ERROR_INVALID_PARAMETER), s'))
             | Some e \<Rightarrow> \<exists>s0. mquery os (walk_cursor minA mbis) s0 = (Inl e, s'))) \<and>
         (maxA \<le> minA \<longrightarrow> mbis = [] \<and> r = None \<and> s' = s)"
proof -
  from assms(2,4) have run: "iter_memory_map_loop os (minA - 1) minA maxA s = ((mbis, r), s')"
    by (simp add: iter_memory_map_def)
  note t = loop_tiles [OF assms(1,3) run]
  have e: "minA < maxA \<longrightarrow>
            (case r of
               None \<Rightarrow> (mbis \<noteq> [] \<and> maxA \<le> region_end (last mbis)) \<or>
                       (\<exists>s0. mquery os (walk_cursor minA mbis) s0 =
                               (Inl (WindowsError ERROR_INVALID_PARAMETER), s'))
             | Some e \<Rightarrow> \<exists>s0. mquery os (walk_cursor minA mbis) s0 = (Inl e, s'))"
    using loop_end [OF assms(1,3) _ _ run] by simp
  have z: "maxA \<le> minA \<longrightarrow> mbis = [] \<and> r = None \<and> s' = s"
    using loop_stop [OF _ run] by simp
  from t e z show ?thesis by blast
qed

text \<open>
  The theorem on two walks of the concrete target: over the two committed
  pages, which are covered up to the upper bound, and at the top of the
  address space, where the walk ends at the query that finds no region.
\<close>

theorem iter_memory_map_tiles_witness:
  "page_granular os_demo \<and>
   align_address_range os_demo (Some 0x10800) (Some 0x11800) = (0x10000, 0x12000) \<and>
   (0x10000 :: int) mod pageSize = 0 \<and>
   fst (iter_memory_map os_demo (Some 0x10800) (Some 0x11800) held_demo) =
     ([demo_region 0x10000 0x1000 0x1000 4 0x20000, demo_region 0x11000 0x1000 0x1000 0x104 0x20000], None) \<and>
   contiguous [demo_region 0x10000 0x1000 0x1000 4 0x20000, demo_region 0x11000 0x1000 0x1000 0x104 0x20000] \<and>
   (0x12000 :: int) \<le> region_end (demo_region 0x11000 0x1000 0x1000 0x104 0x20000) \<and>
   align_address_range os_demo (Some 0x1F000) (Some 0x30000) = (0x1F000, 0x30000) \<and>
   fst (iter_memory_map os_demo (Some 0x1F000) (Some 0x30000) held_demo) =
     ([demo_region 0x1F000 0x1000 0x10000 1 0], None) \<and>
   (\<exists>s0. mquery os_demo 0x20000 s0 =
      (Inl (WindowsError ERROR_INVALID_PARAMETER),
       held_demo\<lparr>log := [Call_VirtualQueryEx hp_demo 0x1F000, Call_VirtualQueryEx hp_demo 0x20000]\<rparr>))"
proof -
  have a1: "align_address_range os_demo (Some 0x10800) (Some 0x11800) = (0x10000, 0x12000)"
    by (simp add: os_demo_def demo_align_def)
  have a2: "align_address_range os_demo (Some 0x1F000) (Some 0x30000) = (0x1F000, 0x30000)"
    by (simp add: os_demo_def demo_align_def)
  have p1: "(0x10000 :: int) mod pageSize = 0" and p2: "(0x1F000 :: int) mod pageSize = 0"
    by (simp_all add: pageSize_def)
  note t1 = iter_memory_map_tiles [OF demo_page_granular a1 p1 demo_walk]
  note t2 = iter_memory_map_tiles [OF demo_page_granular a2 p2 demo_walk_top]
  from t1 have c1: "contiguous [demo_region 0x10000 0x1000 0x1000 4 0x20000,
        demo_region 0x11000 0x1000 0x1000 0x104 0x20000]" by blast
  from t1 have "(0x12000 :: int) \<le> region_end (demo_region 0x11000 0x1000 0x1000 0x104 0x20000) \<or>
      (\<exists>s0. mquery os_demo (walk_cursor 0x10000 [demo_region 0x10000 0x1000 0x1000 4 0x20000,
        demo_region 0x11000 0x1000 0x1000 0x104 0x20000]) s0 =
          (Inl (WindowsError ERROR_INVALID_PARAMETER),
           held_demo\<lparr>log := [Call_VirtualQueryEx hp_demo 0x10000, Call_VirtualQueryEx hp_demo 0x11000]\<rparr>))"
    by simp
  moreover have "(0x12000 :: int) \<le> region_end (demo_region 0x11000 0x1000 0x1000 0x104 0x20000)"
    by (simp add: region_end_def demo_region_def)
  ultimately have c2: "(0x12000 :: int) \<le> region_end (demo_region 0x11000 0x1000 0x1000 0x104 0x20000)"
    by blast
  have re: "region_end (demo_region 0x1F000 0x1000 0x10000 1 0) = 0x20000"
    by (simp add: region_end_def demo_region_def)
  from t2 have "(0x30000 :: int) \<le> region_end (demo_region 0x1F000 0x1000 0x10000 1 0) \<or>
      (\<exists>s0. mquery os_demo (walk_cursor 0x1F000 [demo_region 0x1F000 0x1000 0x10000 1 0]) s0 =
          (Inl (WindowsError ERROR_INVALID_PARAMETER),
           held_demo\<lparr>log := [Call_VirtualQueryEx hp_demo 0x1F000, Call_VirtualQueryEx hp_demo 0x20000]\<rparr>))"
    by simp
  then have c3: "\<exists>s0. mquery os_demo 0x20000 s0 =
      (Inl (WindowsError ERROR_INVALID_PARAMETER),
       held_demo\<lparr>log := [Call_VirtualQueryEx hp_demo 0x1F000, Call_VirtualQueryEx hp_demo 0x20000]\<rparr>)"
    unfolding re by (simp add: walk_cursor_def re)
  show ?thesis
    using demo_page_granular a1 a2 p1 c1 c2 c3 by (simp add: demo_walk demo_walk_top)
qed

section \<open>\<^verbatim>\<open>peek\<close> reads the readable prefix and never raises\<close>

text \<open>
  Claim C8. For every address and size, from every state and against any OS,
  \<^verbatim>\<open>peek\<close> returns bytes and never raises. With a size that is not positive
  it returns nothing and makes no call. Otherwise, once the handle and the
  memory map of the requested range are obtained, the read is truncated at
  the first region of the map that is not readable (every region before it
  is readable): the size asked of the OS is the distance from the address to
  the base of that region, or the whole size when every region is readable;
  when that size is positive exactly one read of that size at the address is
  made and the result is exactly the bytes the OS returns for it; when it is
  not positive nothing is read and the result is empty. A \<^verbatim>\<open>WindowsError\<close>
  raised by the handle, the map or the read is turned into a warning and an
  empty result.
\<close>

theorem peek_readable_prefix:
  assumes "peek os lpBaseAddress nSize s = (r, s')"
  shows "(\<exists>data. r = Inr data) \<and>
         (nSize \<le> 0 \<longrightarrow> r = Inr [] \<and> s' = s) \<and>
         (\<forall>e s1. 0 < nSize \<and> peek_body os lpBaseAddress nSize s = (Inl e, s1) \<longrightarrow>
            r = Inr [] \<and> s' = emit Warn s1) \<and>
         (\<forall>hProc s1 mbis s2.
            0 < nSize \<and>
            get_handle os (PROCESS_VM_READ OR PROCESS_QUERY_INFORMATION) s = (Inr hProc, s1) \<and>
            get_memory_map os (Some lpBaseAddress) (Some (lpBaseAddress + nSize)) s1 = (Inr mbis, s2) \<longrightarrow>
            (case find (\<lambda>m. \<not> is_readable os m) mbis of
               None \<Rightarrow>
                 events_since s2 s' =
                   Call_ReadProcessMemory hProc lpBaseAddress nSize #
                   (case ReadProcessMemory os (log s2) hProc lpBaseAddress nSize of
                      Inl c \<Rightarrow> [Warn] | Inr data \<Rightarrow> []) \<and>
                 r = Inr (case ReadProcessMemory os (log s2) hProc lpBaseAddress nSize of
                            Inl c \<Rightarrow> [] | Inr data \<Rightarrow> data)
             | Some m \<Rightarrow>
                 (\<exists>pre post. mbis = pre @ m # post \<and> (\<forall>x \<in> set pre. is_readable os x) \<and>
                    \<not> is_readable os m) \<and>
                 (if 0 < BaseAddress m - lpBaseAddress
                  then events_since s2 s' =
                         Call_ReadProcessMemory hProc lpBaseAddress (BaseAddress m - lpBaseAddress) #
                         (case ReadProcessMemory os (log s2) hProc lpBaseAddress
                                 (BaseAddress m - lpBaseAddress) of
                            Inl c \<Rightarrow> [Warn] | Inr data \<Rightarrow> []) \<and>
                       r = Inr (case ReadProcessMemory os (log s2) hProc lpBaseAddress
                                       (BaseAddress m - lpBaseAddress) of
                                  Inl c \<Rightarrow> [] | Inr data \<Rightarrow> data)
                  else s' = s2 \<and> r = Inr [])))"
proof -
  have c1: "\<exists>data. r = Inr data"
  proof (cases "0 < nSize")
    case False
    with assms show ?thesis by (auto simp add: peek_def)
  next
    case True
    obtain rb sb where b: "peek_body os lpBaseAddress nSize s = (rb, sb)"
      by (cases "peek_body os lpBaseAddress nSize s")
    show ?thesis
    proof (cases rb)
      case (Inl e)
      with peek_body_windows [of os lpBaseAddress nSize s e sb] b obtain c where "e = WindowsError c" by auto
      with assms True b Inl show ?thesis by (auto simp add: peek_def)
    next
      case (Inr d)
      with assms True b show ?thesis by (auto simp add: peek_def)
    qed
  qed
  have c2: "nSize \<le> 0 \<longrightarrow> r = Inr [] \<and> s' = s"
    using assms by (auto simp add: peek_def)
  have c3: "r = Inr [] \<and> s' = emit Warn s1"
    if "0 < nSize \<and> peek_body os lpBaseAddress nSize s = (Inl e, s1)" for e s1
  proof -
    from that peek_body_windows [of os lpBaseAddress nSize s e s1] obtain c where "e = WindowsError c" by auto
    with assms that show ?thesis by (auto simp add: peek_def)
  qed
  have c4: "(case find (\<lambda>m. \<not> is_readable os m) mbis of
               None \<Rightarrow>
                 events_since s2 s' =
                   Call_ReadProcessMemory hProc lpBaseAddress nSize #
                   (case ReadProcessMemory os (log s2) hProc lpBaseAddress nSize of
                      Inl c \<Rightarrow> [Warn] | Inr data \<Rightarrow> []) \<and>
                 r = Inr (case ReadProcessMemory os (log s2) hProc lpBaseAddress nSize of
                            Inl c \<Rightarrow> [] | Inr data \<Rightarrow> data)
             | Some m \<Rightarrow>
                 (\<exists>pre post. mbis = pre @ m # post \<and> (\<forall>x \<in> set pre. is_readable os x) \<and>
                    \<not> is_readable os m) \<and>
                 (if 0 < BaseAddress m - lpBaseAddress
                  then events_since s2 s' =
                         Call_ReadProcessMemory hProc lpBaseAddress (BaseAddress m - lpBaseAddress) #
                         (case ReadProcessMemory os (log s2) hProc lpBaseAddress
                                 (BaseAddress m - lpBaseAddress) of
                            Inl c \<Rightarrow> [Warn] | Inr data \<Rightarrow> []) \<and>
                       r = Inr (case ReadProcessMemory os (log s2) hProc lpBaseAddress
                                       (BaseAddress m - lpBaseAddress) of
                                  Inl c \<Rightarrow> [] | Inr data \<Rightarrow> data)
                  else s' = s2 \<and> r = Inr []))"
    if h: "0 < nSize \<and>
            get_handle os (PROCESS_VM_READ OR PROCESS_QUERY_INFORMATION) s = (Inr hProc, s1) \<and>
            get_memory_map os (Some lpBaseAddress) (Some (lpBaseAddress + nSize)) s1 = (Inr mbis, s2)"
    for hProc s1 mbis s2
  proof -
    let ?k = "peek_size os lpBaseAddress nSize mbis"
    have body: "peek_body os lpBaseAddress nSize s =
        (if 0 < ?k
         then os_call (Call_ReadProcessMemory hProc lpBaseAddress ?k)
                (\<lambda>evs. ReadProcessMemory os evs hProc lpBaseAddress ?k) s2
         else (Inr [], s2))"
      using h by (simp add: peek_body_def then_do_def)
    have run: "0 < ?k \<Longrightarrow>
        events_since s2 s' =
          Call_ReadProcessMemory hProc lpBaseAddress ?k #
            (case ReadProcessMemory os (log s2) hProc lpBaseAddress ?k of Inl c \<Rightarrow> [Warn] | Inr data \<Rightarrow> []) \<and>
        r = Inr (case ReadProcessMemory os (log s2) hProc lpBaseAddress ?k of Inl c \<Rightarrow> [] | Inr data \<Rightarrow> data)"
      using assms h body
      by (auto simp add: peek_def os_call_def events_since_def split: sum.splits)
    have stop: "\<not> 0 < ?k \<Longrightarrow> s' = s2 \<and> r = Inr []"
      using assms h body by (auto simp add: peek_def)
    show ?thesis
    proof (cases "find (\<lambda>m. \<not> is_readable os m) mbis")
      case None
      then have "?k = nSize" by (simp add: peek_size_find)
      with run h None show ?thesis by simp
    next
      case (Some m)
      then have k: "?k = BaseAddress m - lpBaseAddress" by (simp add: peek_size_find)
      from Some obtain i where i: "i < length mbis" "\<not> is_readable os (mbis ! i)" "m = mbis ! i"
        "\<forall>j<i. is_readable os (mbis ! j)"
        by (auto simp add: find_Some_iff)
      have split: "mbis = take i mbis @ m # drop (Suc i) mbis"
        using i(1,3) by (simp add: id_take_nth_drop)
      have pre: "\<forall>x \<in> set (take i mbis). is_readable os x"
        using i(1,4) by (auto simp add: in_set_conv_nth)
      have ex: "\<exists>pre post. mbis = pre @ m # post \<and> (\<forall>x \<in> set pre. is_readable os x) \<and> \<not> is_readable os m"
        using split pre i(2,3) by blast
      show ?thesis
        unfolding Some option.case
        using ex run stop k by (cases "0 < BaseAddress m - lpBaseAddress") simp_all
    qed
  qed
  from c1 c2 c3 c4 show ?thesis by blast
qed

text \<open>
  The theorem at a read of 32 bytes that starts 16 bytes before the guard
  page of the concrete target: 16 bytes are asked for and returned.
\<close>

theorem peek_readable_prefix_witness:
  "peek os_demo 0x10FF0 0x20 held_demo =
     (Inr (replicate 16 0),
      \<lparr>self = (self held_demo)\<lparr>hProcess := peek_handle\<rparr>,
       log = [Call_OpenProcess 0xC38 1234, Call_CloseHandle 7,
              Call_VirtualQueryEx peek_handle 0x10000, Call_VirtualQueryEx peek_handle 0x11000,
              Call_ReadProcessMemory peek_handle 0x10FF0 0x10]\<rparr>) \<and>
   find (\<lambda>m. \<not> is_readable os_demo m) [demo_region 0x10000 0x1000 0x1000 4 0x20000, guard_page] =
     Some guard_page \<and>
   BaseAddress guard_page - 0x10FF0 = 0x10 \<and>
   (\<exists>pre post. [demo_region 0x10000 0x1000 0x1000 4 0x20000, guard_page] = pre @ guard_page # post \<and>
      (\<forall>x \<in> set pre. is_readable os_demo x) \<and> \<not> is_readable os_demo guard_page)"
proof -
  have f: "find (\<lambda>m. \<not> is_readable os_demo m) [demo_region 0x10000 0x1000 0x1000 4 0x20000, guard_page] =
     Some guard_page"
    by (simp add: os_demo_def demo_region_def guard_page_def)
  have b: "BaseAddress guard_page - 0x10FF0 = 0x10"
    by (simp add: demo_region_def guard_page_def)
  note t = peek_readable_prefix [OF peek_demo_run, THEN conjunct2, THEN conjunct2, THEN conjunct2,
      rule_format, of peek_handle _ "[demo_region 0x10000 0x1000 0x1000 4 0x20000, guard_page]",
      OF conjI [OF _ conjI [OF peek_demo_handle peek_demo_map]]]
  have "(0::int) < 0x20" by simp
  from t [OF this] have "\<exists>pre post. [demo_region 0x10000 0x1000 0x1000 4 0x20000, guard_page] = pre @ guard_page # post \<and>
      (\<forall>x \<in> set pre. is_readable os_demo x) \<and> \<not> is_readable os_demo guard_page"
    unfolding f option.case by blast
  with peek_demo_run f b show ?thesis by blast
qed

section \<open>The fast scan leaves the surviving processes alone\<close>

text \<open>
  Claim C10. Whatever the OS answers and however \<^verbatim>\<open>scan_processes_fast\<close> ends,
  a process ID that is in the container before and after the call is mapped
  to the same \<^verbatim>\<open>Process\<close> object, unchanged: it has the same identity, the same
  cached file name, the same thread and module collections and the same
  handle. (This holds for the caller's own ID as well.)
\<close>

theorem scan_processes_fast_frame:
  assumes "scan_processes_fast os c = (r, c')"
    and "map_of (processDict c) pid = Some p"
    and "map_of (processDict c') pid = Some p'"
  shows "p' = p"
proof (cases "EnumProcesses os (clog c)")
  case (Inl err)
  with assms(1) have "processDict c' = processDict c"
    by (auto simp add: scan_processes_fast_def)
  with assms(2,3) show ?thesis by simp
next
  case (Inr pids)
  let ?our = "GetCurrentProcessId os"
  let ?c0 = "cemit Call_EnumProcesses c"
  let ?new = "removeAll ?our (remdups pids)"
  let ?old = "removeAll ?our (keys ?c0)"
  let ?add = "filter (\<lambda>pid. pid \<notin> set ?old) ?new"
  let ?c1 = "fold (\<lambda>pid. add_new_process pid None) ?add ?c0"
  from assms(1) Inr have d: "del_processes os (filter (\<lambda>pid. pid \<notin> set ?new) ?old) ?c1 = (r, c')"
    by (simp add: scan_processes_fast_def Let_def)
  from assms(2) have "pid \<in> set (keys c)"
    by (auto simp add: keys_def dest: map_of_SomeD intro: rev_image_eqI)
  then have "pid \<notin> set ?add" by auto
  then have "map_of (processDict ?c1) pid = map_of (processDict c) pid"
    by (simp add: map_of_fold_add)
  with del_processes_map_of [OF d assms(3)] assms(2) show ?thesis by simp
qed

text \<open>
  The theorem on a container that tracks 100 and 300 while the fast source
  sees 1 (the caller), 100 and 200: 300 goes, 200 comes, and the object of 100
  is the one it was.
\<close>

theorem scan_processes_fast_frame_witness:
  "map_of (processDict container_demo) 100 =
     Some \<lparr>oid = 0, dwProcessId = 100, hProcess = HObj \<lparr>hvalue = 7, dwAccess = 0x400\<rparr>,
            fileName = Some ''a.exe'', threads = [101], modules = [0x400000], Process_wow64 = None\<rparr> \<and>
   map_of (processDict (snd (scan_processes_fast os_demo container_demo))) 100 =
     Some \<lparr>oid = 0, dwProcessId = 100, hProcess = HObj \<lparr>hvalue = 7, dwAccess = 0x400\<rparr>,
            fileName = Some ''a.exe'', threads = [101], modules = [0x400000], Process_wow64 = None\<rparr> \<and>
   keys (snd (scan_processes_fast os_demo container_demo)) = [100, 200]"
proof -
  let ?P = "\<lparr>oid = 0, dwProcessId = 100, hProcess = HObj \<lparr>hvalue = 7, dwAccess = 0x400\<rparr>,
            fileName = Some ''a.exe'', threads = [101], modules = [0x400000 :: int], Process_wow64 = None\<rparr>"
  have before: "map_of (processDict container_demo) 100 = Some ?P"
    by (simp add: container_demo_def)
  obtain p' where after: "map_of (processDict (snd (scan_processes_fast os_demo container_demo))) 100 = Some p'"
    by (simp add: fast_demo_run)
  from scan_processes_fast_frame [OF surjective_pairing before after] have "p' = ?P" .
  with before after show ?thesis by (simp add: fast_demo_run keys_def)
qed

section \<open>A scan reconciles the tracked process IDs with its source\<close>

text \<open>
  Claim C4, as the code has it. Let \<open>B\<close> be the IDs tracked before a scan by
  one source, and \<open>S\<close> the IDs that the source produces: the IDs the fast
  source lists, for \<^verbatim>\<open>scan_processes_fast\<close>; the IDs of the process entries
  together with the owners of the thread entries of the Toolhelp snapshot,
  for \<^verbatim>\<open>scan_processes_and_threads\<close>; the IDs the session source lists, for
  \<^verbatim>\<open>scan_processes\<close>. Whatever the outcome of the scan, a return or an
  exception raised while the dead processes are removed, every ID of \<open>S\<close>
  other than the caller's own is tracked afterwards, whether it was in \<open>B\<close>
  or not, and the caller's own ID is tracked exactly when it was before:
  discovery never adds it and it is never among the dead. When the scan
  returns, every ID of \<open>B\<close> that the source did not produce, other than the
  caller's own, is no longer tracked; indeed the tracked set is then exactly
  \<open>S\<close> without the caller's ID, together with the caller's ID when it was
  tracked.

  For a whole cycle, a call of \<^verbatim>\<open>scan\<close> that returns, the same holds with
  \<open>B\<close> the IDs tracked before the cycle and \<open>S\<close> the IDs that the session
  source listed when \<^verbatim>\<open>scan\<close> consulted it, the last source of the cycle: the
  tracked set is \<open>S\<close> without the caller's ID, together with the caller's ID
  when it was tracked. So an ID that no source of the cycle reported is
  gone, and an ID that the session source reported is there.
\<close>

theorem scans_reconcile_ids:
  "(\<forall>pids r c'. EnumProcesses os (clog c) = Inr pids \<and> scan_processes_fast os c = (r, c') \<longrightarrow>
      (\<forall>pid \<in> set pids. pid \<noteq> GetCurrentProcessId os \<longrightarrow> pid \<in> set (keys c')) \<and>
      (GetCurrentProcessId os \<in> set (keys c') \<longleftrightarrow> GetCurrentProcessId os \<in> set (keys c)) \<and>
      (r = Inr () \<longrightarrow>
         set (keys c') = (set pids - {GetCurrentProcessId os}) \<union> (set (keys c) \<inter> {GetCurrentProcessId os}) \<and>
         reconciled (GetCurrentProcessId os) (set (keys c)) (set pids) (set (keys c')))) \<and>
   (\<forall>pes tes r c'. CreateToolhelp32Snapshot os (clog c) = Inr (pes, tes) \<and>
      scan_processes_and_threads os c = (r, c') \<longrightarrow>
      (\<forall>pid \<in> fst ` set pes \<union> snd ` set tes. pid \<noteq> GetCurrentProcessId os \<longrightarrow> pid \<in> set (keys c')) \<and>
      (GetCurrentProcessId os \<in> set (keys c') \<longleftrightarrow> GetCurrentProcessId os \<in> set (keys c)) \<and>
      (r = Inr () \<longrightarrow>
         set (keys c') = ((fst ` set pes \<union> snd ` set tes) - {GetCurrentProcessId os}) \<union>
                         (set (keys c) \<inter> {GetCurrentProcessId os}) \<and>
         reconciled (GetCurrentProcessId os) (set (keys c)) (fst ` set pes \<union> snd ` set tes) (set (keys c')))) \<and>
   (\<forall>infos r c'. WTSEnumerateProcesses os (clog c) = Inr infos \<and> scan_processes os c = (r, c') \<longrightarrow>
      (\<forall>pid \<in> fst ` set infos. pid \<noteq> GetCurrentProcessId os \<longrightarrow> pid \<in> set (keys c')) \<and>
      (GetCurrentProcessId os \<in> set (keys c') \<longleftrightarrow> GetCurrentProcessId os \<in> set (keys c)) \<and>
      (r = Inr () \<longrightarrow>
         set (keys c') = (fst ` set infos - {GetCurrentProcessId os}) \<union>
                         (set (keys c) \<inter> {GetCurrentProcessId os}) \<and>
         reconciled (GetCurrentProcessId os) (set (keys c)) (fst ` set infos) (set (keys c')))) \<and>
   (\<forall>b c'. scan os c = (Inr b, c') \<longrightarrow>
      (\<exists>pre infos rest.
         clog c' = clog c @ pre @ Call_WTSEnumerateProcesses # rest \<and>
         WTSEnumerateProcesses os (clog c @ pre) = Inr infos \<and>
         set (keys c') = (fst ` set infos - {GetCurrentProcessId os}) \<union>
                         (set (keys c) \<inter> {GetCurrentProcessId os}) \<and>
         reconciled (GetCurrentProcessId os) (set (keys c)) (fst ` set infos) (set (keys c'))))"
proof (intro conjI allI impI)
  fix pids r c'
  assume a: "EnumProcesses os (clog c) = Inr pids \<and> scan_processes_fast os c = (r, c')"
  from scan_processes_fast_keys_any [OF a [THEN conjunct1] a [THEN conjunct2]]
  show "\<forall>pid \<in> set pids. pid \<noteq> GetCurrentProcessId os \<longrightarrow> pid \<in> set (keys c')"
    and "GetCurrentProcessId os \<in> set (keys c') \<longleftrightarrow> GetCurrentProcessId os \<in> set (keys c)"
    by auto
  assume "r = Inr ()"
  with a have "scan_processes_fast os c = (Inr (), c')" by simp
  from scan_processes_fast_keys [OF a [THEN conjunct1] this]
  show "set (keys c') = (set pids - {GetCurrentProcessId os}) \<union> (set (keys c) \<inter> {GetCurrentProcessId os})"
    and "reconciled (GetCurrentProcessId os) (set (keys c)) (set pids) (set (keys c'))"
    by (simp_all add: reconciledI)
next
  fix pes tes r c'
  assume a: "CreateToolhelp32Snapshot os (clog c) = Inr (pes, tes) \<and>
      scan_processes_and_threads os c = (r, c')"
  from scan_processes_and_threads_keys_any [OF a [THEN conjunct1] a [THEN conjunct2]]
  show "\<forall>pid \<in> fst ` set pes \<union> snd ` set tes. pid \<noteq> GetCurrentProcessId os \<longrightarrow> pid \<in> set (keys c')"
    and "GetCurrentProcessId os \<in> set (keys c') \<longleftrightarrow> GetCurrentProcessId os \<in> set (keys c)"
    by auto
  assume "r = Inr ()"
  with a have "scan_processes_and_threads os c = (Inr (), c')" by simp
  from scan_processes_and_threads_keys [OF a [THEN conjunct1] this]
  show "set (keys c') = ((fst ` set pes \<union> snd ` set tes) - {GetCurrentProcessId os}) \<union>
                         (set (keys c) \<inter> {GetCurrentProcessId os})"
    and "reconciled (GetCurrentProcessId os) (set (keys c)) (fst ` set pes \<union> snd ` set tes) (set (keys c'))"
    by (simp_all add: reconciledI)
next
  fix infos r c'
  assume a: "WTSEnumerateProcesses os (clog c) = Inr infos \<and> scan_processes os c = (r, c')"
  from scan_processes_keys_any [OF a [THEN conjunct1] a [THEN conjunct2]]
  show "\<forall>pid \<in> fst ` set infos. pid \<noteq> GetCurrentProcessId os \<longrightarrow> pid \<in> set (keys c')"
    and "GetCurrentProcessId os \<in> set (keys c') \<longleftrightarrow> GetCurrentProcessId os \<in> set (keys c)"
    by auto
  assume "r = Inr ()"
  with a have "scan_processes os c = (Inr (), c')" by simp
  from scan_processes_keys [OF a [THEN conjunct1] this]
  show "set (keys c') = (fst ` set infos - {GetCurrentProcessId os}) \<union>
                         (set (keys c) \<inter> {GetCurrentProcessId os})"
    and "reconciled (GetCurrentProcessId os) (set (keys c)) (fst ` set infos) (set (keys c'))"
    by (simp_all add: reconciledI)
next
  fix b c'
  assume a: "scan os c = (Inr b, c')"
  show "\<exists>pre infos rest.
         clog c' = clog c @ pre @ Call_WTSEnumerateProcesses # rest \<and>
         WTSEnumerateProcesses os (clog c @ pre) = Inr infos \<and>
         set (keys c') = (fst ` set infos - {GetCurrentProcessId os}) \<union>
                         (set (keys c) \<inter> {GetCurrentProcessId os}) \<and>
         reconciled (GetCurrentProcessId os) (set (keys c)) (fst ` set infos) (set (keys c'))"
  proof (rule scan_run [OF a])
    fix e1 infos e2 e3 e4 and c2 c3 :: container
    assume l4: "clog c' = clog c @ e1 @ [Call_WTSEnumerateProcesses] @ e2 @ e3 @ e4" and
      w: "WTSEnumerateProcesses os (clog c @ e1) = Inr infos" and
      k: "set (keys c') = (fst ` set infos - {GetCurrentProcessId os}) \<union>
                           (set (keys c) \<inter> {GetCurrentProcessId os})"
    from l4 w k reconciledI [OF k] show ?thesis
      by (intro exI [of _ e1] exI [of _ infos] exI [of _ "e2 @ e3 @ e4"]) simp
  qed
qed

text \<open>
  The theorem for the three scans and the cycle on the container that tracks
  100 and 300, the caller being process 1.
\<close>

theorem scans_reconcile_ids_witness:
  "EnumProcesses os_demo (clog container_demo) = Inr [1, 100, 200] \<and>
   GetCurrentProcessId os_demo = 1 \<and>
   keys container_demo = [100, 300] \<and>
   fst (scan_processes_fast os_demo container_demo) = Inr () \<and>
   set (keys (snd (scan_processes_fast os_demo container_demo))) = {100, 200} \<and>
   reconciled 1 {100, 300} {1, 100, 200} (set (keys (snd (scan_processes_fast os_demo container_demo)))) \<and>
   CreateToolhelp32Snapshot os_demo (clog container_demo) =
     Inr ([(1, Some ''self.exe''), (100, Some ''a.exe'')], [(11, 1), (101, 100)]) \<and>
   fst (scan_processes_and_threads os_demo container_demo) = Inr () \<and>
   set (keys (snd (scan_processes_and_threads os_demo container_demo))) = {100} \<and>
   reconciled 1 {100, 300} {1, 100} (set (keys (snd (scan_processes_and_threads os_demo container_demo)))) \<and>
   WTSEnumerateProcesses os_demo (clog container_demo) =
     Inr [(1, Some ''self.exe''), (100, Some ''a.exe'')] \<and>
   fst (scan_processes os_demo container_demo) = Inr () \<and>
   set (keys (snd (scan_processes os_demo container_demo))) = {100} \<and>
   reconciled 1 {100, 300} {1, 100} (set (keys (snd (scan_processes os_demo container_demo)))) \<and>
   fst (scan os_demo container_demo) = Inr True \<and>
   set (keys (snd (scan os_demo container_demo))) = {100} \<and>
   reconciled 1 {100, 300} {1, 100} (set (keys (snd (scan os_demo container_demo))))"
proof -
  have e: "EnumProcesses os_demo (clog container_demo) = Inr [1, 100, 200]"
    and o: "GetCurrentProcessId os_demo = 1"
    and t: "CreateToolhelp32Snapshot os_demo (clog container_demo) =
     Inr ([(1, Some ''self.exe''), (100, Some ''a.exe'')], [(11, 1), (101, 100)])"
    and w: "WTSEnumerateProcesses os_demo (clog container_demo) =
     Inr [(1, Some ''self.exe''), (100, Some ''a.exe'')]"
    by (simp_all add: os_demo_def)
  have k: "set (keys container_demo) = {100, 300}" by (simp add: keys_def container_demo_def)
  have kl: "keys container_demo = [100, 300]" by (simp add: keys_def container_demo_def)
  obtain c1 where r1: "scan_processes_fast os_demo container_demo = (Inr (), c1)"
    using fast_demo_run by simp
  obtain c2 where r2: "scan_processes_and_threads os_demo container_demo = (Inr (), c2)"
    using toolhelp_demo_run by simp
  obtain c3 where r3: "scan_processes os_demo container_demo = (Inr (), c3)"
    using session_demo_run by simp
  obtain c4 where r4: "scan os_demo container_demo = (Inr True, c4)"
    using scan_demo_run by simp
  have s1: "set [1, 100, 200 :: int] = {1, 100, 200}" by simp
  have s2: "fst ` set [(1 :: int, Some ''self.exe''), (100, Some ''a.exe'')] \<union>
            snd ` set [(11 :: int, 1 :: int), (101, 100)] = {1, 100}" by auto
  have s3: "fst ` set [(1 :: int, Some ''self.exe''), (100, Some ''a.exe'')] = {1, 100}" by simp
  have q1: "({1, 100, 200} - {1 :: int}) \<union> ({100, 300} \<inter> {1}) = {100, 200}" by auto
  have q2: "({1, 100} - {1 :: int}) \<union> ({100, 300} \<inter> {1}) = {100}" by auto
  note th = scans_reconcile_ids [of os_demo container_demo]
  note th1 = th [THEN conjunct1, rule_format, OF conjI [OF e r1], THEN conjunct2, THEN conjunct2,
      rule_format, OF refl, unfolded o k s1 q1]
  note th2 = th [THEN conjunct2, THEN conjunct1, rule_format, OF conjI [OF t r2], THEN conjunct2,
      THEN conjunct2, rule_format, OF refl, unfolded o k s2 q2]
  note th3 = th [THEN conjunct2, THEN conjunct2, THEN conjunct1, rule_format, OF conjI [OF w r3],
      THEN conjunct2, THEN conjunct2, rule_format, OF refl, unfolded o k s3 q2]
  from th [THEN conjunct2, THEN conjunct2, THEN conjunct2, rule_format, OF r4]
  obtain pre infos where
    wi: "WTSEnumerateProcesses os_demo (clog container_demo @ pre) = Inr infos" and
    ki: "set (keys c4) = (fst ` set infos - {GetCurrentProcessId os_demo}) \<union>
                         (set (keys container_demo) \<inter> {GetCurrentProcessId os_demo})" and
    ri: "reconciled (GetCurrentProcessId os_demo) (set (keys container_demo)) (fst ` set infos) (set (keys c4))"
    by blast
  from wi have "infos = [(1, Some ''self.exe''), (100, Some ''a.exe'')]"
    by (simp add: os_demo_def)
  with ki ri have i: "set (keys c4) = {100}" "reconciled 1 {100, 300} {1, 100} (set (keys c4))"
    unfolding o k s3 q2 by simp_all
  show ?thesis
    unfolding r1 r2 r3 r4 fst_conv snd_conv
    by (intro conjI e o t w kl refl th1 [THEN conjunct1] th1 [THEN conjunct2]
        th2 [THEN conjunct1] th2 [THEN conjunct2] th3 [THEN conjunct1] th3 [THEN conjunct2] i)
qed

text \<open>
  Claim C4 as stated fails for the IDs that only an earlier source of the
  cycle reports. Here the Toolhelp source lists the processes 1, 100 and
  200 and the session source lists 1 and 100: \<^verbatim>\<open>scan\<close> returns, the ID 200
  was produced by a source of the cycle, and it is not tracked after the
  scan, because the session scan counts it among the dead.
\<close>

theorem scan_forgets_first_source:
  "CreateToolhelp32Snapshot os_session_short (clog empty_container) =
     Inr ([(1, Some ''self.exe''), (100, Some ''a.exe''), (200, Some ''b.exe'')],
          [(11, 1), (101, 100), (201, 200)]) \<and>
   GetCurrentProcessId os_session_short = 1 \<and>
   fst (scan os_session_short empty_container) = Inr True \<and>
   keys (snd (scan os_session_short empty_container)) = [100] \<and>
   200 \<notin> set (keys (snd (scan os_session_short empty_container)))"
  by (simp add: session_short_run keys_def) (simp add: os_session_short_def os_demo_def)

section \<open>The completeness flag of a scan\<close>




end
